theory Spec2Isabelle
  imports Main "HOL-Library.Word"
begin

unbundle bit_operations_syntax

section \<open>Basic types of mpdb.h\<close>

text \<open>
  \<^verbatim>\<open>typedef unsigned char Byte; typedef Byte Boolean;
  typedef unsigned short int Word; typedef unsigned long int DWord;\<close>
  The structs of mpdb.h overlay the file byte for byte, so \<open>Word\<close> is 16 bits and
  \<open>DWord\<close> (and with it \<open>long\<close>) is 32 bits. mpdb.h defines \<open>LITTLE_ENDIAN\<close>:
  the byte at the lower address of an integer is its least significant one.
\<close>

type_synonym Byte = "8 word"
type_synonym Boolean = "8 word"
type_synonym Word = "16 word"
type_synonym DWord = "32 word"

text \<open>\<open>((Byte *)p)[i]\<close> for an integer object at \<open>p\<close> on the little-endian host.\<close>

definition byte_at :: "nat \<Rightarrow> 'a::len word \<Rightarrow> Byte" where
  "byte_at i w = ucast (drop_bit (8 * i) w)"

text \<open>The \<open>Word\<close> whose two bytes in memory are \<open>b0\<close>, \<open>b1\<close>.\<close>

definition Word_of_bytes :: "Byte \<Rightarrow> Byte \<Rightarrow> Word" where
  "Word_of_bytes b0 b1 = ucast b0 OR push_bit 8 (ucast b1)"

text \<open>\<open>((Word *)p)[i]\<close> for a \<open>DWord\<close> at \<open>p\<close>, and the \<open>DWord\<close> made of two
  \<open>Word\<close>s in memory order.\<close>

definition word_at :: "nat \<Rightarrow> DWord \<Rightarrow> Word" where
  "word_at i d = ucast (drop_bit (16 * i) d)"

definition DWord_of_words :: "Word \<Rightarrow> Word \<Rightarrow> DWord" where
  "DWord_of_words w0 w1 = ucast w0 OR push_bit 16 (ucast w1)"

section \<open>Endian codec (MpImport.c, MpExport.c: SwapWord, SwapDWord)\<close>

text \<open>
  \<^verbatim>\<open>void SwapWord(void *p) { Byte *bp = (Byte *)p, temp;
     temp = bp[0]; bp[0] = bp[1]; bp[1] = temp; }\<close>
  The model takes the value stored at \<open>p\<close> and returns the value stored there afterwards.
\<close>

definition SwapWord :: "Word \<Rightarrow> Word" where
  "SwapWord w =
     (let bp0 = byte_at 0 w; bp1 = byte_at 1 w;
          temp = bp0;
          bp0 = bp1;
          bp1 = temp
      in Word_of_bytes bp0 bp1)"

text \<open>
  \<^verbatim>\<open>void SwapDWord(void *p) { Word *wp = (Word *)p, temp;
     temp = wp[0]; wp[0] = wp[1]; wp[1] = temp; SwapWord(wp); SwapWord(wp+1); }\<close>
\<close>

definition SwapDWord :: "DWord \<Rightarrow> DWord" where
  "SwapDWord d =
     (let wp0 = word_at 0 d; wp1 = word_at 1 d;
          temp = wp0;
          wp0 = wp1;
          wp1 = temp;
          wp0 = SwapWord wp0;
          wp1 = SwapWord wp1
      in DWord_of_words wp0 wp1)"

section \<open>C strings\<close>

text \<open>
  A \<open>char *\<close> into a NUL-terminated buffer is modelled by the list of the bytes from the
  pointer onwards; the buffer's terminating NUL is the end of the list, and a NUL
  inside the list ends the string as it does in C. \<open>deref p\<close> is \<open>*p\<close>, \<open>tl p\<close> is
  \<open>p + 1\<close>, and \<open>cstr p\<close> is the string \<open>p\<close> denotes.
\<close>

fun deref :: "Byte list \<Rightarrow> Byte" where
  "deref [] = 0"
| "deref (c # p) = c"

definition cstr :: "Byte list \<Rightarrow> Byte list" where
  "cstr p = takeWhile (\<lambda>c. c \<noteq> 0) p"

text \<open>A string literal of the source as bytes.\<close>

definition bytes :: "string \<Rightarrow> Byte list" where
  "bytes s = map of_char s"

text \<open>\<open>strncmp\<close> and \<open>strcmp\<close> of the C library, chars compared as unsigned.\<close>

fun strncmp :: "Byte list \<Rightarrow> Byte list \<Rightarrow> nat \<Rightarrow> int" where
  "strncmp s1 s2 0 = 0"
| "strncmp s1 s2 (Suc n) =
     (if deref s1 \<noteq> deref s2 then (if deref s1 < deref s2 then - 1 else 1)
      else if deref s1 = 0 then 0
      else strncmp (tl s1) (tl s2) n)"

fun strcmp :: "Byte list \<Rightarrow> Byte list \<Rightarrow> int" where
  "strcmp [] s2 = (if deref s2 = 0 then 0 else - 1)"
| "strcmp (c1 # s1) s2 =
     (if c1 \<noteq> deref s2 then (if c1 < deref s2 then - 1 else 1)
      else if c1 = 0 then 0
      else strcmp s1 (tl s2))"

section \<open>Shared constants of mpdb.h\<close>

definition MathPadCreator :: "Byte list" where "MathPadCreator = bytes ''MthP''"
definition MathPadType :: "Byte list" where "MathPadType = bytes ''Data''"
definition MathPadVersion :: Word where "MathPadVersion = 1"
definition PilotEOL :: Byte where "PilotEOL = 0x0A"
definition dmCategoryLength :: nat where "dmCategoryLength = 16"
definition dmRecNumCategories :: nat where "dmRecNumCategories = 16"
definition dmRecAttrCategoryMask :: Byte where "dmRecAttrCategoryMask = 0x0F"
definition dmRecAttrSecret :: Byte where "dmRecAttrSecret = 0x10"
definition dmUnfiledCategory :: Byte where "dmUnfiledCategory = 0"

section \<open>The structs of mpdb.h and their layout in the file\<close>

text \<open>
  The program reads and writes its structs with \<open>fread\<close> and \<open>fwrite\<close>, so a struct in
  memory holds the file's bytes, each integer field being whatever the little-endian
  host makes of its bytes. \<open>load_Word\<close> and \<open>load_DWord\<close> give the value of a field
  from its bytes in memory order, \<open>store_Word\<close> and \<open>store_DWord\<close> the bytes of a value.
\<close>

definition load_Word :: "Byte list \<Rightarrow> Word" where
  "load_Word bs = Word_of_bytes (bs ! 0) (bs ! 1)"

definition store_Word :: "Word \<Rightarrow> Byte list" where
  "store_Word w = [byte_at 0 w, byte_at 1 w]"

definition load_DWord :: "Byte list \<Rightarrow> DWord" where
  "load_DWord bs = DWord_of_words (load_Word (take 2 bs)) (load_Word (drop 2 bs))"

definition store_DWord :: "DWord \<Rightarrow> Byte list" where
  "store_DWord d = store_Word (word_at 0 d) @ store_Word (word_at 1 d)"

text \<open>\<open>field off n mem\<close>: the \<open>n\<close> bytes at offset \<open>off\<close> of a struct's memory.\<close>

definition field :: "nat \<Rightarrow> nat \<Rightarrow> Byte list \<Rightarrow> Byte list" where
  "field off n mem = take n (drop off mem)"

text \<open>
  \<^verbatim>\<open>typedef struct { LocalID localChunkID; Byte attributes; Byte uniqueID[3]; }
    RecordEntryType;\<close> (8 bytes).
\<close>

record RecordEntryType =
  localChunkID :: DWord
  attributes :: Byte
  uniqueID :: "Byte list"

definition sizeof_RecordEntryType :: nat where "sizeof_RecordEntryType = 8"

definition load_RecordEntryType :: "Byte list \<Rightarrow> RecordEntryType" where
  "load_RecordEntryType mem =
     \<lparr>localChunkID = load_DWord (field 0 4 mem), attributes = mem ! 4,
      uniqueID = field 5 3 mem\<rparr>"

definition store_RecordEntryType :: "RecordEntryType \<Rightarrow> Byte list" where
  "store_RecordEntryType e = store_DWord (localChunkID e) @ [attributes e] @ uniqueID e"

text \<open>
  \<^verbatim>\<open>typedef struct { LocalID nextRecordListID; Word numRecords; Word firstEntry; }
    RecordListType;\<close> Only the part before \<open>firstEntry\<close> is read and written:
  \<open>offsetof(RecordListType, firstEntry)\<close> is 6.
\<close>

record RecordListType =
  nextRecordListID :: DWord
  numRecords :: Word

definition offsetof_firstEntry :: nat where "offsetof_firstEntry = 6"

definition load_RecordListType :: "Byte list \<Rightarrow> RecordListType" where
  "load_RecordListType mem =
     \<lparr>nextRecordListID = load_DWord (field 0 4 mem), numRecords = load_Word (field 4 2 mem)\<rparr>"

definition store_RecordListType :: "RecordListType \<Rightarrow> Byte list" where
  "store_RecordListType l = store_DWord (nextRecordListID l) @ store_Word (numRecords l)"

text \<open>
  \<open>DatabaseHdrType\<close>, up to \<open>recordList\<close>: \<open>offsetof(DatabaseHdrType, recordList)\<close> is 72.
  The header's \<open>attributes\<close> field is called \<open>dbAttributes\<close> here, the \<open>type\<close> field
  \<open>dbType\<close>.
\<close>

record DatabaseHdrType =
  name :: "Byte list"
  dbAttributes :: Word
  version :: Word
  creationDate :: DWord
  modificationDate :: DWord
  lastBackupDate :: DWord
  modificationNumber :: DWord
  appInfoID :: DWord
  sortInfoID :: DWord
  dbType :: DWord
  creator :: DWord
  uniqueIDSeed :: DWord

definition offsetof_recordList :: nat where "offsetof_recordList = 72"

definition load_DatabaseHdrType :: "Byte list \<Rightarrow> DatabaseHdrType" where
  "load_DatabaseHdrType mem =
     \<lparr>name = field 0 32 mem,
      dbAttributes = load_Word (field 32 2 mem),
      version = load_Word (field 34 2 mem),
      creationDate = load_DWord (field 36 4 mem),
      modificationDate = load_DWord (field 40 4 mem),
      lastBackupDate = load_DWord (field 44 4 mem),
      modificationNumber = load_DWord (field 48 4 mem),
      appInfoID = load_DWord (field 52 4 mem),
      sortInfoID = load_DWord (field 56 4 mem),
      dbType = load_DWord (field 60 4 mem),
      creator = load_DWord (field 64 4 mem),
      uniqueIDSeed = load_DWord (field 68 4 mem)\<rparr>"

definition store_DatabaseHdrType :: "DatabaseHdrType \<Rightarrow> Byte list" where
  "store_DatabaseHdrType h =
     name h @ store_Word (dbAttributes h) @ store_Word (version h) @
     store_DWord (creationDate h) @ store_DWord (modificationDate h) @
     store_DWord (lastBackupDate h) @ store_DWord (modificationNumber h) @
     store_DWord (appInfoID h) @ store_DWord (sortInfoID h) @
     store_DWord (dbType h) @ store_DWord (creator h) @ store_DWord (uniqueIDSeed h)"

text \<open>
  \<^verbatim>\<open>typedef struct { Word renamedCategories;
     Char categoryLabels[dmRecNumCategories][dmCategoryLength];
     Byte categoryUniqIDs[dmRecNumCategories]; Byte lastUniqID; } AppInfoType;\<close>
  2 + 256 + 16 + 1 bytes and one byte of padding after \<open>lastUniqID\<close> (the struct is
  aligned for its \<open>Word\<close>): \<open>sizeof(AppInfoType)\<close> is 276. The padding byte is kept, as
  \<open>fwrite\<close> writes it back.
\<close>

record AppInfoType =
  renamedCategories :: Word
  categoryLabels :: "Byte list list"
  categoryUniqIDs :: "Byte list"
  lastUniqID :: Byte
  padding :: "Byte list"

definition sizeof_AppInfoType :: nat where "sizeof_AppInfoType = 276"

definition load_AppInfoType :: "Byte list \<Rightarrow> AppInfoType" where
  "load_AppInfoType mem =
     \<lparr>renamedCategories = load_Word (field 0 2 mem),
      categoryLabels = map (\<lambda>i. field (2 + dmCategoryLength * i) dmCategoryLength mem)
                          [0 ..< dmRecNumCategories],
      categoryUniqIDs = field 258 dmRecNumCategories mem,
      lastUniqID = mem ! 274,
      padding = field 275 1 mem\<rparr>"

definition store_AppInfoType :: "AppInfoType \<Rightarrow> Byte list" where
  "store_AppInfoType a =
     store_Word (renamedCategories a) @ concat (categoryLabels a) @ categoryUniqIDs a @
     [lastUniqID a] @ padding a"

text \<open>
  \<^verbatim>\<open>typedef struct { AppInfoType appinfo; Byte MathPadData[34]; } MathPadAppInfoType;\<close>
  (310 bytes).
\<close>

record MathPadAppInfoType =
  appinfo :: AppInfoType
  MathPadData :: "Byte list"

definition sizeof_MathPadAppInfoType :: nat where "sizeof_MathPadAppInfoType = 310"

definition load_MathPadAppInfoType :: "Byte list \<Rightarrow> MathPadAppInfoType" where
  "load_MathPadAppInfoType mem =
     \<lparr>appinfo = load_AppInfoType (field 0 sizeof_AppInfoType mem),
      MathPadData = field sizeof_AppInfoType 34 mem\<rparr>"

definition store_MathPadAppInfoType :: "MathPadAppInfoType \<Rightarrow> Byte list" where
  "store_MathPadAppInfoType m = store_AppInfoType (appinfo m) @ MathPadData m"

text \<open>
  \<^verbatim>\<open>typedef struct { Byte places; Boolean stripzeros; char text[1]; } MathPadItemType;\<close>
  \<open>offsetof(MathPadItemType, text)\<close> is 2.
\<close>

definition offsetof_text :: nat where "offsetof_text = 2"

section \<open>Binary streams\<close>

text \<open>
  A \<open>FILE *\<close> opened in binary mode: the file's bytes and the position. \<open>fread n\<close> is
  \<open>fread(ptr, 1, n, fp)\<close>: it returns the bytes it could read, fewer than \<open>n\<close> at the end
  of the file. \<open>fseek\<close> is \<open>fseek(fp, offset, SEEK_SET)\<close>; the program never tests its
  result, and with a negative offset it fails and leaves the position where it was.
  \<open>fgetc\<close> returns the byte as a non-negative \<open>int\<close>, or \<open>EOF\<close> (-1).
  \<open>fwrite\<close> overwrites from the position on and extends the file at its end; a write
  is taken to succeed (the program exits when one does not).
\<close>

record FILE =
  content :: "Byte list"
  fpos :: nat

definition fread :: "nat \<Rightarrow> FILE \<Rightarrow> Byte list \<times> FILE" where
  "fread n fp =
     (let got = take n (drop (fpos fp) (content fp))
      in (got, fp\<lparr>fpos := fpos fp + length got\<rparr>))"

definition fseek :: "int \<Rightarrow> FILE \<Rightarrow> FILE" where
  "fseek offset fp = (if offset < 0 then fp else fp\<lparr>fpos := nat offset\<rparr>)"

definition ftell :: "FILE \<Rightarrow> int" where
  "ftell fp = int (fpos fp)"

definition fgetc :: "FILE \<Rightarrow> int \<times> FILE" where
  "fgetc fp =
     (if fpos fp < length (content fp)
      then (uint (content fp ! fpos fp), fp\<lparr>fpos := fpos fp + 1\<rparr>)
      else (- 1, fp))"

definition fwrite :: "Byte list \<Rightarrow> FILE \<Rightarrow> FILE" where
  "fwrite data fp =
     fp\<lparr>content := take (fpos fp) (content fp) @
                    replicate (fpos fp - length (content fp)) 0 @ data @
                    drop (fpos fp + length data) (content fp),
        fpos := fpos fp + length data\<rparr>"

text \<open>
  \<open>long\<close> is 32 bits, as \<open>DWord\<close> is: a \<open>DWord\<close> passed for a \<open>long\<close> offset is read as
  two's complement, and a \<open>long\<close> stored into a \<open>DWord\<close> is taken modulo \<open>2^32\<close>.
  \<open>ftell\<close> is taken to succeed and to return the position: a stream at a position of
  \<open>2^31\<close> or more, which a \<open>long\<close> cannot hold, is outside what is modelled.
\<close>

definition long_of_DWord :: "DWord \<Rightarrow> int" where
  "long_of_DWord d = sint d"

definition DWord_of_long :: "int \<Rightarrow> DWord" where
  "DWord_of_long l = word_of_int l"

section \<open>The records in memory (MpImport.c)\<close>

text \<open>
  \<^verbatim>\<open>typedef struct Record { struct Record *next; Byte catnum, places;
     Boolean secret, stripzeros; char *text; } Record;\<close>
  The linked list \<open>RecordList\<close> is a list of records, a node's \<open>next\<close> pointer being its
  place in the list; a \<open>RecordPtr\<close> into the list is an index. The field \<open>text\<close> is called
  \<open>rtext\<close> and holds the string the pointer denotes. \<open>malloc\<close> is taken to succeed (the
  program exits when it does not).
\<close>

record Record =
  catnum :: Byte
  places :: Byte
  secret :: Boolean
  stripzeros :: Boolean
  rtext :: "Byte list"

text \<open>The global variables of MpImport.c.\<close>

record globals =
  Hdr :: DatabaseHdrType
  MpInfo :: MathPadAppInfoType
  RecordList :: "Record list"
  NumRecords :: Word

datatype error = IOError | FormatError | Undefined

text \<open>
  \<open>IOError\<close>: a short read followed by \<open>exit(1)\<close>. \<open>FormatError\<close>: "Not a MathPad
  database file" or "Don't know how to read this version", followed by \<open>exit(1)\<close>.
  \<open>Undefined\<close>: the program goes on with memory it never initialised, or reads or
  writes outside an object; C does not say what it does then.
\<close>

text \<open>
  \<^verbatim>\<open>void AddRecord(RecordPtr recptr) { RecordPtr lastnode = (RecordPtr)&RecordList;
     while (lastnode->next) lastnode = lastnode->next;
     lastnode->next = recptr; recptr->next = NULL; ++NumRecords; }\<close>
\<close>

definition AddRecord :: "Record \<Rightarrow> globals \<Rightarrow> globals" where
  "AddRecord recptr g =
     g\<lparr>RecordList := RecordList g @ [recptr], NumRecords := NumRecords g + 1\<rparr>"

section \<open>Database reader (MpImport.c: LoadDB)\<close>

text \<open>\<^verbatim>\<open>length = 1; while (fgetc(db) > 0) ++length;\<close>\<close>

function count_text :: "nat \<Rightarrow> FILE \<Rightarrow> nat \<times> FILE" where
  "count_text len db =
     (let (c, db') = fgetc db
      in if c > 0 then count_text (len + 1) db' else (len, db'))"
  by pat_completeness auto
termination
  by (relation "measure (\<lambda>(len, db). length (content db) - fpos db)")
    (auto simp: fgetc_def split: if_splits)

declare count_text.simps [simp del]

text \<open>
  The body of the \<open>for\<close> loop over the entries of a record list (lines 170 to 215), up
  to the call of \<open>AddRecord\<close>. When the file ends before the text's terminator, the
  buffer's last byte is never written and the record's text has no defined end.
\<close>

definition LoadDB_record :: "FILE \<Rightarrow> RecordEntryType \<Rightarrow> error + Record \<times> FILE" where
  "LoadDB_record db entryptr =
     (let catnum = attributes entryptr AND dmRecAttrCategoryMask;
          secret = (if attributes entryptr AND dmRecAttrSecret \<noteq> 0 then 1 else 0);
          entryptr = entryptr\<lparr>localChunkID := SwapDWord (localChunkID entryptr)\<rparr>;
          db = fseek (long_of_DWord (localChunkID entryptr)) db;
          (item, db) = fread offsetof_text db
      in if length item \<noteq> offsetof_text then Inl IOError
         else
           let textpos = ftell db;
               (len, db) = count_text 1 db;
               db = fseek textpos db;
               (buf, db) = fread len db
           in if length buf \<noteq> len then Inl Undefined
              else Inr (\<lparr>catnum = catnum, places = item ! 0, secret = secret,
                         stripzeros = item ! 1, rtext = cstr buf\<rparr>, db))"

text \<open>The \<open>for\<close> loop: one record per entry of the array, in the array's order.\<close>

fun LoadDB_entries :: "FILE \<Rightarrow> RecordEntryType list \<Rightarrow> globals \<Rightarrow> error + globals \<times> FILE" where
  "LoadDB_entries db [] g = Inr (g, db)"
| "LoadDB_entries db (entryptr # entries) g =
     (case LoadDB_record db entryptr of
        Inl e \<Rightarrow> Inl e
      | Inr (recptr, db) \<Rightarrow> LoadDB_entries db entries (AddRecord recptr g))"

text \<open>The array of \<open>n\<close> record entries held by a block of memory.\<close>

definition entries_of :: "nat \<Rightarrow> Byte list \<Rightarrow> RecordEntryType list" where
  "entries_of n mem =
     map (\<lambda>i. load_RecordEntryType (field (sizeof_RecordEntryType * i) sizeof_RecordEntryType mem))
       [0 ..< n]"

text \<open>
  The body of the \<open>do ... while (listpos)\<close> loop over the chain of record lists (lines
  144 to 224): one record list is read and its records are loaded. The result is the
  globals, the stream and the new \<open>listpos\<close>.
\<close>

definition LoadDB_list :: "FILE \<Rightarrow> int \<Rightarrow> globals \<Rightarrow> error + globals \<times> FILE \<times> int" where
  "LoadDB_list db listpos g =
     (let db = fseek listpos db;
          (mem, db) = fread offsetof_firstEntry db
      in if length mem \<noteq> offsetof_firstEntry then Inl IOError
         else
           let reclist = load_RecordListType mem;
               reclist = reclist\<lparr>numRecords := SwapWord (numRecords reclist)\<rparr>
           in case (if numRecords reclist > 0
                    then
                      let len = unat (numRecords reclist) * sizeof_RecordEntryType;
                          (mem, db) = fread len db
                      in if length mem \<noteq> len then Inl IOError
                         else LoadDB_entries db (entries_of (unat (numRecords reclist)) mem) g
                    else Inr (g, db)) of
                Inl e \<Rightarrow> Inl e
              | Inr (g, db) \<Rightarrow>
                  let reclist = reclist\<lparr>nextRecordListID := SwapDWord (nextRecordListID reclist)\<rparr>;
                      listpos = long_of_DWord (nextRecordListID reclist)
                  in Inr (g, db, listpos))"

text \<open>
  The loop itself. A chain that leads back to a list already read is read for ever:
  the loop is a partial function, \<open>None\<close> when it does not return.
\<close>

partial_function (option) LoadDB_lists :: "FILE \<Rightarrow> int \<Rightarrow> globals \<Rightarrow> (error + globals) option" where
  "LoadDB_lists db listpos g =
     (case LoadDB_list db listpos g of
        Inl e \<Rightarrow> Some (Inl e)
      | Inr (g, db, listpos) \<Rightarrow>
          if listpos \<noteq> 0 then LoadDB_lists db listpos g else Some (Inr g))"

declare LoadDB_lists.simps [code]

text \<open>
  The header check of \<open>LoadDB\<close> (lines 116 to 128), on the header just read. It returns
  the header as the check leaves it: the version word swapped back.
\<close>

definition check_Hdr :: "DatabaseHdrType \<Rightarrow> error + DatabaseHdrType" where
  "check_Hdr hdr =
     (if strncmp (store_DWord (dbType hdr)) MathPadType 4 \<noteq> 0 \<or>
         strncmp (store_DWord (creator hdr)) MathPadCreator 4 \<noteq> 0
      then Inl FormatError
      else
        let hdr = hdr\<lparr>version := SwapWord (version hdr)\<rparr>
        in if version hdr \<noteq> MathPadVersion then Inl FormatError
           else Inr (hdr\<lparr>version := SwapWord (version hdr)\<rparr>))"

definition LoadDB :: "FILE \<Rightarrow> globals \<Rightarrow> (error + globals) option" where
  "LoadDB db g =
     (let (mem, db) = fread offsetof_recordList db
      in if length mem \<noteq> offsetof_recordList then Some (Inl IOError)
         else
           case check_Hdr (load_DatabaseHdrType mem) of
             Inl e \<Rightarrow> Some (Inl e)
           | Inr hdr \<Rightarrow>
               let listpos = ftell db;
                   hdr = hdr\<lparr>appInfoID := SwapDWord (appInfoID hdr)\<rparr>;
                   db = fseek (long_of_DWord (appInfoID hdr)) db;
                   (mem, db) = fread sizeof_MathPadAppInfoType db
               in if length mem \<noteq> sizeof_MathPadAppInfoType then Some (Inl IOError)
                  else LoadDB_lists db listpos
                         (g\<lparr>Hdr := hdr, MpInfo := load_MathPadAppInfoType mem\<rparr>))"

text \<open>The program's globals before \<open>main\<close> runs: zeroed, the list empty.\<close>

definition zero_DatabaseHdrType :: DatabaseHdrType where
  "zero_DatabaseHdrType = load_DatabaseHdrType (replicate offsetof_recordList 0)"

definition zero_MathPadAppInfoType :: MathPadAppInfoType where
  "zero_MathPadAppInfoType = load_MathPadAppInfoType (replicate sizeof_MathPadAppInfoType 0)"

definition globals0 :: globals where
  "globals0 = \<lparr>Hdr = zero_DatabaseHdrType, MpInfo = zero_MathPadAppInfoType,
               RecordList = [], NumRecords = 0\<rparr>"

section \<open>Record store (MpImport.c: FindRecord, ReplaceRecord)\<close>

text \<open>
  The inner loop of \<open>FindRecord\<close> and the test after it:
  \<^verbatim>\<open>while (*p1 && *p1 != PilotEOL && *p1 == *p2) { ++p1; ++p2; }
  if (*p1 == *p2) return currnode;\<close>
\<close>

fun title_match :: "Byte list \<Rightarrow> Byte list \<Rightarrow> bool" where
  "title_match [] p2 = (deref [] = deref p2)"
| "title_match (c # p1) p2 =
     (if c \<noteq> 0 \<and> c \<noteq> PilotEOL \<and> c = deref p2 then title_match p1 (tl p2)
      else c = deref p2)"

text \<open>\<open>FindRecord\<close> returns the first node that matches (its index), or \<open>NULL\<close>.\<close>

fun FindRecord :: "Byte list \<Rightarrow> Record list \<Rightarrow> nat option" where
  "FindRecord title [] = None"
| "FindRecord title (currnode # rest) =
     (if title_match title (rtext currnode) then Some 0
      else map_option Suc (FindRecord title rest))"

text \<open>
  \<open>ReplaceRecord\<close> walks the list to the node \<open>oldptr\<close>, links \<open>newptr\<close> in its place
  and frees it; a pointer that is not in the list changes nothing.
\<close>

definition ReplaceRecord :: "nat \<Rightarrow> Record \<Rightarrow> globals \<Rightarrow> globals" where
  "ReplaceRecord oldptr newptr g = g\<lparr>RecordList := (RecordList g)[oldptr := newptr]\<rparr>"

section \<open>Text import parser (MpImport.c: ReadLine, LoadImport)\<close>

text \<open>
  The text file is read front to back only: the stream is the list of the chars not
  yet read, as the C library delivers them. \<open>fgets sz\<close> reads up to \<open>sz - 1\<close>
  chars, stopping after a newline; it returns \<open>NULL\<close> (\<open>None\<close>) when there is nothing
  left to read.
\<close>

fun fgets_chars :: "nat \<Rightarrow> Byte list \<Rightarrow> Byte list" where
  "fgets_chars 0 fp = []"
| "fgets_chars (Suc n) [] = []"
| "fgets_chars (Suc n) (c # fp) = (if c = 0x0A then [c] else c # fgets_chars n fp)"

definition fgets :: "nat \<Rightarrow> Byte list \<Rightarrow> (Byte list \<times> Byte list) option" where
  "fgets sz fp =
     (if fp = [] then None
      else let s = fgets_chars (sz - 1) fp in Some (s, drop (length s) fp))"

definition CategoryLine :: "Byte list" where
  "CategoryLine = bytes ''Category = '' @ [0x22] @ bytes ''%s'' @ [0x22] @
                  bytes ''; Secret = %d'' @ [0x0A]"
definition CatTestLength :: nat where "CatTestLength = 12"
definition PlacesLine :: "Byte list" where
  "PlacesLine = bytes ''Places = %d; StripZeros = %d'' @ [0x0A]"
definition PlacesTestLength :: nat where "PlacesTestLength = 9"
definition SeparatorLine :: "Byte list" where
  "SeparatorLine = bytes ''~~~~~~~~~~~~~~~~~~~~~~~~~~~'' @ [0x0A]"
definition SepTestLength :: nat where "SepTestLength = 27"

text \<open>
  \<open>ReadLine\<close> returns -1 at the end of the file, 0 for a separator line, and else the
  length of the line with its end replaced by \<open>PilotEOL\<close>. The buffer is modelled by
  the string it holds. A chunk of \<open>sz - 1\<close> chars with no line end in it makes
  \<open>*p = '\0'\<close> write one byte past the buffer.
\<close>

definition ReadLine :: "Byte list \<Rightarrow> nat \<Rightarrow> Byte list \<Rightarrow> error + int \<times> Byte list \<times> Byte list" where
  "ReadLine buff sz fp =
     (case fgets sz fp of
        None \<Rightarrow> Inr (- 1, buff, fp)
      | Some (buff, fp) \<Rightarrow>
          if strncmp buff SeparatorLine SepTestLength = 0 then Inr (0, buff, fp)
          else
            let p = length (takeWhile (\<lambda>c. c \<noteq> 0 \<and> c \<noteq> 0x0A \<and> c \<noteq> 0x0D) buff)
            in if p + 1 \<ge> sz then Inl Undefined
               else Inr (int (p + 1), take p buff @ [PilotEOL], fp))"

text \<open>
  \<open>strchr\<close>, \<open>isspace\<close>, \<open>isdigit\<close> and \<open>atoi\<close> of the C library (in the C locale).
  \<open>atoi (s)\<close> is \<open>(int) strtol (s, NULL, 10)\<close>, as the C libraries have it. \<open>int\<close> and
  \<open>long\<close> have 32 bits here, and for a numeral outside their range \<open>strtol\<close> returns
  \<open>LONG_MAX\<close> or \<open>LONG_MIN\<close>: so does \<open>atoi\<close> (C itself leaves its value open there).
\<close>

definition INT_MAX :: int where "INT_MAX = 2147483647"
definition INT_MIN :: int where "INT_MIN = - 2147483648"

fun strchr :: "Byte list \<Rightarrow> Byte \<Rightarrow> Byte list option" where
  "strchr [] c = (if c = 0 then Some [] else None)"
| "strchr (x # s) c = (if x = c then Some (x # s) else if x = 0 then None else strchr s c)"

definition isspace :: "Byte \<Rightarrow> bool" where
  "isspace c = (c = 0x20 \<or> (0x09 \<le> c \<and> c \<le> 0x0D))"

definition isdigit :: "Byte \<Rightarrow> bool" where
  "isdigit c = (0x30 \<le> c \<and> c \<le> 0x39)"

fun atoi_digits :: "int \<Rightarrow> Byte list \<Rightarrow> int" where
  "atoi_digits acc [] = acc"
| "atoi_digits acc (c # s) =
     (if isdigit c then atoi_digits (10 * acc + uint (c - 0x30)) s else acc)"

definition atoi :: "Byte list \<Rightarrow> int" where
  "atoi s =
     (let s = dropWhile isspace s;
          v = (if deref s = 0x2D then - atoi_digits 0 (tl s)
               else if deref s = 0x2B then atoi_digits 0 (tl s)
               else atoi_digits 0 s)
      in if v > INT_MAX then INT_MAX else if v < INT_MIN then INT_MIN else v)"

text \<open>\<^verbatim>\<open>for (; i < n; ++i) if (P(i)) break;\<close> with \<open>k = n - i\<close> rounds to go: the final \<open>i\<close>.\<close>

fun for_break :: "(nat \<Rightarrow> bool) \<Rightarrow> nat \<Rightarrow> nat \<Rightarrow> nat" where
  "for_break P 0 i = i"
| "for_break P (Suc k) i = (if P i then i else for_break P k (Suc i))"

subsection \<open>Reading lines\<close>

lemma length_fgets_chars: "length (fgets_chars n fp) \<le> length fp"
  by (induction n fp rule: fgets_chars.induct) auto

lemma fgets_chars_nonempty: "fp \<noteq> [] \<Longrightarrow> 0 < n \<Longrightarrow> fgets_chars n fp \<noteq> []"
  by (cases n; cases fp) auto

lemma fgets_shorter:
  "fgets sz fp = Some (s, fp') \<Longrightarrow> 1 < sz \<Longrightarrow> length fp' < length fp"
  using fgets_chars_nonempty [of fp "sz - 1"] length_fgets_chars [of "sz - 1" fp]
  by (auto simp: fgets_def Let_def split: if_splits)

lemma fgets_not_longer: "fgets sz fp = Some (s, fp') \<Longrightarrow> length fp' \<le> length fp"
  by (auto simp: fgets_def Let_def split: if_splits)

lemma ReadLine_not_longer:
  "ReadLine buff sz fp = Inr (n, buff', fp') \<Longrightarrow> length fp' \<le> length fp"
  by (auto simp: ReadLine_def Let_def dest: fgets_not_longer split: option.splits if_splits)

lemma ReadLine_shorter:
  "ReadLine buff sz fp = Inr (n, buff', fp') \<Longrightarrow> 0 \<le> n \<Longrightarrow> 1 < sz \<Longrightarrow> length fp' < length fp"
  by (auto simp: ReadLine_def Let_def dest: fgets_shorter split: option.splits if_splits)

text \<open>\<^verbatim>\<open>do { linelength = ReadLine(buff, sizeof(buff), fp); } while (linelength == 1);\<close>\<close>

function ReadLine_nonblank :: "Byte list \<Rightarrow> Byte list \<Rightarrow> error + int \<times> Byte list \<times> Byte list" where
  "ReadLine_nonblank buff fp =
     (case ReadLine buff 256 fp of
        Inl e \<Rightarrow> Inl e
      | Inr (linelength, buff', fp') \<Rightarrow>
          if linelength = 1 then ReadLine_nonblank buff' fp' else Inr (linelength, buff', fp'))"
  by pat_completeness auto
termination
  by (relation "measure (\<lambda>(buff, fp). length fp)") (auto dest: ReadLine_shorter)

declare ReadLine_nonblank.simps [simp del]

text \<open>
  The loop that appends the lines after the first to the record's text (lines 504 to
  512); it ends at a separator line or at the end of the file.
\<close>

function LoadImport_lines :: "Byte list \<Rightarrow> Byte list \<Rightarrow> Byte list \<Rightarrow> error + Byte list \<times> Byte list" where
  "LoadImport_lines newtext buff fp =
     (case ReadLine buff 256 fp of
        Inl e \<Rightarrow> Inl e
      | Inr (linelength, buff', fp') \<Rightarrow>
          if linelength > 0 then LoadImport_lines (newtext @ take (nat linelength) buff') buff' fp'
          else Inr (newtext, fp'))"
  by pat_completeness auto
termination
  by (relation "measure (\<lambda>(newtext, buff, fp). length fp)") (auto dest: ReadLine_shorter)

declare LoadImport_lines.simps [simp del]

subsection \<open>The category of an imported record\<close>

text \<open>
  The ids the unique-id loop compares with: \<open>categoryUniqIDs[i]\<close> for \<open>i\<close> below
  \<open>dmRecNumCategories\<close>. There are at most 16 of them and 256 values of a \<open>Byte\<close>, so
  counting upwards reaches a free one; \<open>free_dist\<close> says after how many steps.
\<close>

definition ids_used :: "Byte list \<Rightarrow> Byte set" where
  "ids_used ids = (\<lambda>i. ids ! i) ` {..< dmRecNumCategories}"

definition free_dist :: "Byte list \<Rightarrow> Byte \<Rightarrow> nat" where
  "free_dist ids c = (LEAST k. c + of_nat k \<notin> ids_used ids)"

lemma for_break_less: "for_break P k i < i + k \<longleftrightarrow> (\<exists>j. i \<le> j \<and> j < i + k \<and> P j)"
proof (induction P k i rule: for_break.induct)
  case (1 P i)
  then show ?case by simp
next
  case (2 P k i)
  show ?case
  proof (cases "P i")
    case True
    then show ?thesis by auto
  next
    case False
    have "(\<exists>j. Suc i \<le> j \<and> j < Suc i + k \<and> P j) \<longleftrightarrow> (\<exists>j. i \<le> j \<and> j < i + Suc k \<and> P j)"
      using False by (metis Suc_leD Suc_le_eq add_Suc add_Suc_right le_neq_implies_less)
    with 2 False show ?thesis by simp
  qed
qed

lemma for_break_ids:
  "for_break (\<lambda>i. ids ! i = c) dmRecNumCategories 0 < dmRecNumCategories \<longleftrightarrow> c \<in> ids_used ids"
  using for_break_less [of "\<lambda>i. ids ! i = c" dmRecNumCategories 0]
  by (auto simp: ids_used_def)

lemma ids_used_free: "\<exists>k. c + of_nat k \<notin> ids_used ids"
proof -
  have "card (ids_used ids) \<le> 16"
    unfolding ids_used_def dmRecNumCategories_def
    by (rule order_trans [OF card_image_le]) auto
  moreover have "card (UNIV :: Byte set) = 256" by (simp add: card_word)
  ultimately have "ids_used ids \<noteq> UNIV" by auto
  then obtain b where b: "b \<notin> ids_used ids" by auto
  have "c + of_nat (unat (b - c)) = b" by simp
  with b show ?thesis by metis
qed

lemma free_dist_step: "c \<in> ids_used ids \<Longrightarrow> free_dist ids (c + 1) < free_dist ids c"
proof -
  assume c: "c \<in> ids_used ids"
  obtain k where k: "c + of_nat k \<notin> ids_used ids" using ids_used_free by blast
  have "(LEAST k. c + of_nat k \<notin> ids_used ids) = Suc (LEAST m. c + of_nat (Suc m) \<notin> ids_used ids)"
    using Least_Suc [of "\<lambda>k. c + of_nat k \<notin> ids_used ids" k] k c by simp
  then show ?thesis
    by (simp add: free_dist_def add.assoc add.commute[of 1])
qed

text \<open>
  \<^verbatim>\<open>do { ++MpInfo.appinfo.lastUniqID;
       for (i = 0; i < dmRecNumCategories; ++i)
          if (MpInfo.appinfo.categoryUniqIDs[i] == MpInfo.appinfo.lastUniqID) break;
  } while (i < dmRecNumCategories);\<close>
  The function returns the final \<open>lastUniqID\<close>; \<open>++\<close> on a \<open>Byte\<close> wraps from 255 to 0.
\<close>

function NextUniqID :: "Byte list \<Rightarrow> Byte \<Rightarrow> Byte" where
  "NextUniqID ids uid =
     (let uid = uid + 1;
          i = for_break (\<lambda>i. ids ! i = uid) dmRecNumCategories 0
      in if i < dmRecNumCategories then NextUniqID ids uid else uid)"
  by pat_completeness auto
termination
  by (relation "measure (\<lambda>(ids, c). free_dist ids (c + 1))")
     (auto simp: for_break_ids dest: free_dist_step)

declare NextUniqID.simps [simp del]

text \<open>\<open>strcpy(dst, src)\<close>: the array \<open>dst\<close> afterwards.\<close>

definition strcpy :: "Byte list \<Rightarrow> Byte list \<Rightarrow> Byte list" where
  "strcpy dst src = cstr src @ [0] @ drop (length (cstr src) + 1) dst"

text \<open>
  Lines 417 to 424 of \<open>LoadImport\<close>: the name between the quotes of the category line
  in \<open>buff\<close>, cut to \<open>dmCategoryLength - 1\<close> chars. The result is \<open>catname\<close> and the
  pointer \<open>end\<close> (called \<open>endq\<close>). A line with no closing quote leaves \<open>end\<close> \<open>NULL\<close>,
  and the program computes with it.
\<close>

definition LoadImport_catname :: "Byte list \<Rightarrow> error + Byte list \<times> Byte list" where
  "LoadImport_catname buff =
     (case strchr buff 0x22 of
        None \<Rightarrow> Inl Undefined
      | Some q \<Rightarrow>
          let start = tl q
          in (case strchr start 0x22 of
                None \<Rightarrow> Inl Undefined
              | Some endq \<Rightarrow>
                  let catlength = length start - length endq;
                      catlength = (if catlength \<ge> dmCategoryLength then dmCategoryLength - 1
                                   else catlength);
                      catname = take catlength start
                  in Inr (catname, endq)))"

text \<open>
  Lines 426 to 455: \<open>catname\<close> is looked up in the category table and, when it is not
  there, given the first unused slot and a new unique id, or \<open>dmUnfiledCategory\<close> when
  no slot is unused. The result is the record's \<open>catnum\<close> and the table.
\<close>

definition LoadImport_catnum ::
  "Byte list \<Rightarrow> MathPadAppInfoType \<Rightarrow> Byte \<times> MathPadAppInfoType" where
  "LoadImport_catnum catname info =
     (let labels = categoryLabels (appinfo info);
          catnum = for_break (\<lambda>i. strcmp (labels ! i) catname = 0) dmRecNumCategories 0
      in if catnum \<ge> dmRecNumCategories
         then
           let catnum = for_break (\<lambda>i. deref (labels ! i) = 0) dmRecNumCategories 0
           in if catnum \<ge> dmRecNumCategories
              then (dmUnfiledCategory, info)
              else
                let a = appinfo info;
                    a = a\<lparr>categoryLabels := labels[catnum := strcpy (labels ! catnum) catname]\<rparr>;
                    a = a\<lparr>lastUniqID := NextUniqID (categoryUniqIDs a) (lastUniqID a)\<rparr>;
                    a = a\<lparr>categoryUniqIDs := (categoryUniqIDs a)[catnum := lastUniqID a]\<rparr>
                in (of_nat catnum, info\<lparr>appinfo := a\<rparr>)
         else (of_nat catnum, info))"

definition LoadImport_category ::
  "Byte list \<Rightarrow> MathPadAppInfoType \<Rightarrow> error + Byte \<times> Byte list \<times> MathPadAppInfoType" where
  "LoadImport_category buff info =
     (case LoadImport_catname buff of
        Inl e \<Rightarrow> Inl e
      | Inr (catname, endq) \<Rightarrow>
          let (catnum', info) = LoadImport_catnum catname info
          in Inr (catnum', endq, info))"

subsection \<open>LoadImport\<close>

text \<open>
  Lines 412 to 467: the category/secret line. The result is \<open>None\<close> where \<open>LoadImport\<close>
  returns \<open>NULL\<close>, and else \<open>catnum\<close>, \<open>secret\<close> and the line now in \<open>buff\<close>.
\<close>

definition LoadImport_catline ::
  "int \<Rightarrow> Byte list \<Rightarrow> Byte list \<Rightarrow> MathPadAppInfoType \<Rightarrow>
   error + (Byte \<times> Boolean \<times> int \<times> Byte list) option \<times> Byte list \<times> MathPadAppInfoType" where
  "LoadImport_catline linelength buff fp info =
     (if strncmp buff CategoryLine CatTestLength \<noteq> 0
      then Inr (Some (dmUnfiledCategory, 0, linelength, buff), fp, info)
      else
        case LoadImport_category buff info of
          Inl e \<Rightarrow> Inl e
        | Inr (catnum', endq, info) \<Rightarrow>
            (case strchr (tl endq) 0x3D of
               None \<Rightarrow> Inl Undefined
             | Some q \<Rightarrow>
                 let start = tl q;
                     secret' = (if atoi start \<noteq> 0 then 1 else 0)
                 in (case ReadLine buff 256 fp of
                       Inl e \<Rightarrow> Inl e
                     | Inr (linelength, buff, fp) \<Rightarrow>
                         if linelength < 1 then Inr (None, fp, info)
                         else Inr (Some (catnum', secret', linelength, buff), fp, info))))"

text \<open>Lines 469 to 488: the places/stripzeros line.\<close>

definition LoadImport_placesline ::
  "int \<Rightarrow> Byte list \<Rightarrow> Byte list \<Rightarrow>
   error + (Byte \<times> Boolean \<times> int \<times> Byte list) option \<times> Byte list" where
  "LoadImport_placesline linelength buff fp =
     (if strncmp buff PlacesLine PlacesTestLength \<noteq> 0
      then Inr (Some (14, 1, linelength, buff), fp)
      else
        case strchr buff 0x3D of
          None \<Rightarrow> Inl Undefined
        | Some q \<Rightarrow>
            let start = tl q;
                places' = word_of_int (atoi start)
            in (case strchr start 0x3D of
                  None \<Rightarrow> Inl Undefined
                | Some q \<Rightarrow>
                    let start = tl q;
                        stripzeros' = (if atoi start \<noteq> 0 then 1 else 0)
                    in (case ReadLine buff 256 fp of
                          Inl e \<Rightarrow> Inl e
                        | Inr (linelength, buff, fp) \<Rightarrow>
                            if linelength < 1 then Inr (None, fp)
                            else Inr (Some (places', stripzeros', linelength, buff), fp))))"

text \<open>
  \<open>LoadImport\<close> reads one record from the text file: \<open>None\<close> for \<open>NULL\<close>. The category
  table \<open>MpInfo\<close> is passed in and returned, changed when a category was added. The
  last statement, \<open>newrec->text[textlength-1] = '\0'\<close>, ends the text before the
  \<open>PilotEOL\<close> of its last line.
\<close>

definition LoadImport ::
  "Byte list \<Rightarrow> MathPadAppInfoType \<Rightarrow> error + Record option \<times> Byte list \<times> MathPadAppInfoType" where
  "LoadImport fp info =
     (case ReadLine_nonblank [] fp of
        Inl e \<Rightarrow> Inl e
      | Inr (linelength, buff, fp) \<Rightarrow>
          if linelength < 1 then Inr (None, fp, info)
          else
            (case LoadImport_catline linelength buff fp info of
               Inl e \<Rightarrow> Inl e
             | Inr (None, fp, info) \<Rightarrow> Inr (None, fp, info)
             | Inr (Some (catnum', secret', linelength, buff), fp, info) \<Rightarrow>
                 (case LoadImport_placesline linelength buff fp of
                    Inl e \<Rightarrow> Inl e
                  | Inr (None, fp) \<Rightarrow> Inr (None, fp, info)
                  | Inr (Some (places', stripzeros', linelength, buff), fp) \<Rightarrow>
                      (case LoadImport_lines (take (nat linelength) buff) buff fp of
                         Inl e \<Rightarrow> Inl e
                       | Inr (newtext, fp) \<Rightarrow>
                           Inr (Some \<lparr>catnum = catnum', places = places', secret = secret',
                                      stripzeros = stripzeros',
                                      rtext = cstr (newtext[length newtext - 1 := 0])\<rparr>,
                                fp, info)))))"

section \<open>Merge engine (MpImport.c: ProcessImports)\<close>

subsection \<open>LoadImport consumes its input\<close>

lemma ReadLine_nonblank_not_longer:
  "ReadLine_nonblank buff fp = Inr (n, buff', fp') \<Longrightarrow> length fp' \<le> length fp"
proof (induction buff fp rule: ReadLine_nonblank.induct)
  case (1 buff fp)
  show ?case
  proof (cases "ReadLine buff 256 fp")
    case (Inl e)
    with "1.prems" show ?thesis by (simp add: ReadLine_nonblank.simps [of buff fp])
  next
    case (Inr t)
    obtain m b f where t: "t = (m, b, f)" by (cases t)
    have le: "length f \<le> length fp" using Inr t by (auto dest: ReadLine_not_longer)
    show ?thesis
    proof (cases "m = 1")
      case True
      with "1.prems" Inr t have "ReadLine_nonblank b f = Inr (n, buff', fp')"
        by (simp add: ReadLine_nonblank.simps [of buff fp])
      with "1.IH" [OF Inr _ _ True] t have "length fp' \<le> length f" by simp
      with le show ?thesis by simp
    next
      case False
      with "1.prems" Inr t have "fp' = f" by (simp add: ReadLine_nonblank.simps [of buff fp])
      with le show ?thesis by simp
    qed
  qed
qed

lemma ReadLine_nonblank_shorter:
  "ReadLine_nonblank buff fp = Inr (n, buff', fp') \<Longrightarrow> 0 \<le> n \<Longrightarrow> length fp' < length fp"
proof -
  assume a: "ReadLine_nonblank buff fp = Inr (n, buff', fp')" and n: "0 \<le> n"
  show ?thesis
  proof (cases "ReadLine buff 256 fp")
    case (Inl e)
    with a show ?thesis by (simp add: ReadLine_nonblank.simps [of buff fp])
  next
    case (Inr t)
    obtain m b f where t: "t = (m, b, f)" by (cases t)
    show ?thesis
    proof (cases "m = 1")
      case True
      with a Inr t have "ReadLine_nonblank b f = Inr (n, buff', fp')"
        by (simp add: ReadLine_nonblank.simps [of buff fp])
      then have "length fp' \<le> length f" by (rule ReadLine_nonblank_not_longer)
      moreover have "length f < length fp" using Inr t True by (auto dest: ReadLine_shorter)
      ultimately show ?thesis by simp
    next
      case False
      with a Inr t have "fp' = f" "m = n" by (simp_all add: ReadLine_nonblank.simps [of buff fp])
      with Inr t n show ?thesis by (auto dest: ReadLine_shorter)
    qed
  qed
qed

lemma LoadImport_lines_not_longer:
  "LoadImport_lines acc buff fp = Inr (acc', fp') \<Longrightarrow> length fp' \<le> length fp"
proof (induction acc buff fp rule: LoadImport_lines.induct)
  case (1 acc buff fp)
  show ?case
  proof (cases "ReadLine buff 256 fp")
    case (Inl e)
    with "1.prems" show ?thesis by (simp add: LoadImport_lines.simps [of acc buff fp])
  next
    case (Inr t)
    obtain m b f where t: "t = (m, b, f)" by (cases t)
    have le: "length f \<le> length fp" using Inr t by (auto dest: ReadLine_not_longer)
    show ?thesis
    proof (cases "0 < m")
      case True
      with "1.prems" Inr t have "LoadImport_lines (acc @ take (nat m) b) b f = Inr (acc', fp')"
        by (simp add: LoadImport_lines.simps [of acc buff fp])
      with "1.IH" [OF Inr _ _ True] t have "length fp' \<le> length f" by simp
      with le show ?thesis by simp
    next
      case False
      with "1.prems" Inr t have "fp' = f" by (simp add: LoadImport_lines.simps [of acc buff fp])
      with le show ?thesis by simp
    qed
  qed
qed

lemma LoadImport_catline_not_longer:
  assumes "LoadImport_catline n buff fp info = Inr (res, fp', info')"
  shows "length fp' \<le> length fp"
proof (cases "strncmp buff CategoryLine CatTestLength \<noteq> 0")
  case True
  with assms show ?thesis by (simp add: LoadImport_catline_def)
next
  case False
  show ?thesis
  proof (cases "ReadLine buff 256 fp")
    case (Inl e)
    with assms False show ?thesis
      by (simp add: LoadImport_catline_def Let_def split: sum.splits option.splits prod.splits)
  next
    case (Inr t)
    obtain m b f where t: "t = (m, b, f)" by (cases t)
    have "length f \<le> length fp" using Inr t by (auto dest: ReadLine_not_longer)
    moreover have "fp' = f" using assms False Inr t
      by (simp add: LoadImport_catline_def Let_def split: sum.splits option.splits prod.splits if_splits)
    ultimately show ?thesis by simp
  qed
qed

lemma LoadImport_placesline_not_longer:
  assumes "LoadImport_placesline n buff fp = Inr (res, fp')"
  shows "length fp' \<le> length fp"
proof (cases "strncmp buff PlacesLine PlacesTestLength \<noteq> 0")
  case True
  with assms show ?thesis by (simp add: LoadImport_placesline_def)
next
  case False
  show ?thesis
  proof (cases "ReadLine buff 256 fp")
    case (Inl e)
    with assms False show ?thesis
      by (simp add: LoadImport_placesline_def Let_def split: sum.splits option.splits prod.splits)
  next
    case (Inr t)
    obtain m b f where t: "t = (m, b, f)" by (cases t)
    have "length f \<le> length fp" using Inr t by (auto dest: ReadLine_not_longer)
    moreover have "fp' = f" using assms False Inr t
      by (simp add: LoadImport_placesline_def Let_def split: sum.splits option.splits prod.splits if_splits)
    ultimately show ?thesis by simp
  qed
qed

lemma LoadImport_shorter:
  assumes "LoadImport fp info = Inr (Some newrec, fp', info')"
  shows "length fp' < length fp"
proof (cases "ReadLine_nonblank [] fp")
  case (Inl e)
  with assms show ?thesis by (simp add: LoadImport_def)
next
  case (Inr t)
  obtain n b f where t: "t = (n, b, f)" by (cases t)
  show ?thesis
  proof (cases "n < 1")
    case True
    with assms Inr t show ?thesis by (simp add: LoadImport_def)
  next
    case False
    then have f: "length f < length fp"
      using Inr t by (auto dest: ReadLine_nonblank_shorter)
    show ?thesis
    proof (cases "LoadImport_catline n b f info")
      case (Inl e)
      with assms Inr t False show ?thesis by (simp add: LoadImport_def)
    next
      case Inr2: (Inr u)
      obtain res f2 info2 where u: "u = (res, f2, info2)" by (cases u)
      have f2: "length f2 \<le> length f"
        using Inr2 u by (auto dest: LoadImport_catline_not_longer)
      show ?thesis
      proof (cases res)
        case None
        with assms Inr t False Inr2 u show ?thesis by (simp add: LoadImport_def)
      next
        case (Some v)
        obtain c s n2 b2 where v: "v = (c, s, n2, b2)" by (cases v)
        show ?thesis
        proof (cases "LoadImport_placesline n2 b2 f2")
          case (Inl e)
          with assms Inr t False Inr2 u Some v show ?thesis by (simp add: LoadImport_def)
        next
          case Inr3: (Inr w)
          obtain res3 f3 where w: "w = (res3, f3)" by (cases w)
          have f3: "length f3 \<le> length f2"
            using Inr3 w by (auto dest: LoadImport_placesline_not_longer)
          show ?thesis
          proof (cases res3)
            case None
            with assms Inr t False Inr2 u Some v Inr3 w show ?thesis by (simp add: LoadImport_def)
          next
            case Some3: (Some x)
            obtain p z n3 b3 where x: "x = (p, z, n3, b3)" by (cases x)
            show ?thesis
            proof (cases "LoadImport_lines (take (nat n3) b3) b3 f3")
              case (Inl e)
              with assms Inr t False Inr2 u Some v Inr3 w Some3 x show ?thesis
                by (simp add: LoadImport_def)
            next
              case Inr4: (Inr y)
              obtain tx f4 where y: "y = (tx, f4)" by (cases y)
              have "length f4 \<le> length f3"
                using Inr4 y by (auto dest: LoadImport_lines_not_longer)
              moreover have "fp' = f4"
                using assms Inr t False Inr2 u Some v Inr3 w Some3 x Inr4 y
                by (simp add: LoadImport_def)
              ultimately show ?thesis using f f2 f3 by simp
            qed
          qed
        qed
      qed
    qed
  qed
qed

subsection \<open>ProcessImports\<close>

text \<open>
  \<^verbatim>\<open>typedef enum { YES, NO, ALL } ReplyType;\<close> (\<open>ALL\<close> is written \<open>ALL'\<close>.)
  \<open>Confirm\<close> asks the user on the terminal; it is an external collaborator of the
  merge engine and is modelled as a function from the titles asked about so far, the
  present one last, to the reply. A run keeps the list of the questions it asked in
  \<open>asked\<close>, next to the local variable \<open>allok\<close> and the globals.
\<close>

datatype ReplyType = YES | NO | ALL'

type_synonym user = "Byte list list \<Rightarrow> ReplyType"

record run =
  allok :: bool
  asked :: "Byte list list"
  globs :: globals

text \<open>
  The body of the \<open>while\<close> loop of \<open>ProcessImports\<close> (lines 240 to 270) for the import
  \<open>newrec\<close>; \<open>recptr\<close> is the index of the node \<open>FindRecord\<close> returned.
\<close>

text \<open>The test of line 249: the import is not the same as the record found.\<close>

definition differs :: "Record \<Rightarrow> Record \<Rightarrow> bool" where
  "differs newrec recptr \<longleftrightarrow>
     strcmp (rtext newrec) (rtext recptr) \<noteq> 0 \<or>
     catnum newrec \<noteq> catnum recptr \<or>
     secret newrec \<noteq> secret recptr \<or>
     places newrec \<noteq> places recptr \<or>
     stripzeros newrec \<noteq> stripzeros recptr"

definition ProcessImports_body :: "user \<Rightarrow> Record \<Rightarrow> run \<Rightarrow> run" where
  "ProcessImports_body Confirm newrec r =
     (case FindRecord (rtext newrec) (RecordList (globs r)) of
        None \<Rightarrow> r\<lparr>globs := AddRecord newrec (globs r)\<rparr>
      | Some recptr \<Rightarrow>
          if differs newrec (RecordList (globs r) ! recptr)
          then
            let r = (if allok r then r
                     else r\<lparr>asked := asked r @ [rtext (RecordList (globs r) ! recptr)]\<rparr>);
                reply = (if allok r then YES else Confirm (asked r))
            in (case reply of
                  ALL' \<Rightarrow> r\<lparr>allok := True, globs := ReplaceRecord recptr newrec (globs r)\<rparr>
                | YES \<Rightarrow> r\<lparr>globs := ReplaceRecord recptr newrec (globs r)\<rparr>
                | NO \<Rightarrow> r\<lparr>globs := AddRecord newrec (globs r)\<rparr>)
          else r)"

text \<open>\<^verbatim>\<open>while ((newrec = LoadImport(fp)) != NULL) { ... }\<close>\<close>

function ProcessImports_loop :: "user \<Rightarrow> Byte list \<Rightarrow> run \<Rightarrow> error + run" where
  "ProcessImports_loop Confirm fp r =
     (case LoadImport fp (MpInfo (globs r)) of
        Inl e \<Rightarrow> Inl e
      | Inr (None, fp', info) \<Rightarrow> Inr (r\<lparr>globs := (globs r)\<lparr>MpInfo := info\<rparr>\<rparr>)
      | Inr (Some newrec, fp', info) \<Rightarrow>
          ProcessImports_loop Confirm fp'
            (ProcessImports_body Confirm newrec (r\<lparr>globs := (globs r)\<lparr>MpInfo := info\<rparr>\<rparr>)))"
  by pat_completeness auto
termination
  by (relation "measure (\<lambda>(Confirm, fp, r). length fp)") (auto dest: LoadImport_shorter)

declare ProcessImports_loop.simps [simp del]

definition ProcessImports :: "user \<Rightarrow> Byte list \<Rightarrow> globals \<Rightarrow> error + run" where
  "ProcessImports Confirm fp g =
     ProcessImports_loop Confirm fp \<lparr>allok = False, asked = [], globs = g\<rparr>"

section \<open>Database writer (MpImport.c: SaveDB)\<close>

text \<open>
  The loop over the linked list (lines 332 to 360). \<open>entries\<close> is the memory of the
  array \<open>malloc\<close> returned and \<open>entryptr\<close> the offset in it of the entry to fill in; an
  entry past the end of the array is a write outside it.
  \<^verbatim>\<open>do { fputc(*textptr, db); } while (*textptr++);\<close> writes the text and its NUL.
\<close>

fun SaveDB_records ::
  "Record list \<Rightarrow> nat \<Rightarrow> Byte list \<Rightarrow> FILE \<Rightarrow> error + Byte list \<times> FILE" where
  "SaveDB_records [] entryptr entries db = Inr (entries, db)"
| "SaveDB_records (recptr # rest) entryptr entries db =
     (if entryptr + sizeof_RecordEntryType > length entries then Inl Undefined
      else
        let entry = \<lparr>localChunkID = SwapDWord (DWord_of_long (ftell db)),
                     attributes = (if secret recptr \<noteq> 0 then catnum recptr OR dmRecAttrSecret
                                   else catnum recptr),
                     uniqueID = [0, 0, 0]\<rparr>;
            entries = take entryptr entries @ store_RecordEntryType entry @
                      drop (entryptr + sizeof_RecordEntryType) entries;
            db = fwrite [places recptr, stripzeros recptr] db;
            db = fwrite (cstr (rtext recptr) @ [0]) db
        in SaveDB_records rest (entryptr + sizeof_RecordEntryType) entries db)"

text \<open>
  \<open>SaveDB\<close> writes to the file just opened for writing. \<open>now\<close> is what \<open>time(NULL)\<close>
  returns, \<open>heap i\<close> the byte \<open>i\<close> of the block \<open>malloc\<close> returns, which the program
  writes to the file before it has stored anything in it. \<open>malloc(0)\<close>, for an empty
  list, is taken to return a block.
\<close>

definition SaveDB :: "DWord \<Rightarrow> (nat \<Rightarrow> Byte) \<Rightarrow> FILE \<Rightarrow> globals \<Rightarrow> error + FILE \<times> globals" where
  "SaveDB now heap db g =
     (let db = fwrite (store_DatabaseHdrType (Hdr g)) db;
          reclist = \<lparr>nextRecordListID = 0, numRecords = NumRecords g\<rparr>;
          reclist = reclist\<lparr>numRecords := SwapWord (numRecords reclist)\<rparr>;
          db = fwrite (store_RecordListType reclist) db;
          len = unat (NumRecords g) * sizeof_RecordEntryType;
          entries = map heap [0 ..< len];
          listpos = ftell db;
          db = fwrite entries db;
          hdr = (Hdr g)\<lparr>appInfoID := DWord_of_long (ftell db)\<rparr>;
          hdr = hdr\<lparr>appInfoID := SwapDWord (appInfoID hdr)\<rparr>;
          db = fwrite (store_MathPadAppInfoType (MpInfo g)) db
      in case SaveDB_records (RecordList g) 0 entries db of
           Inl e \<Rightarrow> Inl e
         | Inr (entries, db) \<Rightarrow>
             let hdr = hdr\<lparr>creationDate := SwapDWord now, modificationDate := SwapDWord now,
                           lastBackupDate := SwapDWord now\<rparr>;
                 db = fseek 0 db;
                 db = fwrite (store_DatabaseHdrType hdr) db;
                 db = fseek listpos db;
                 db = fwrite entries db
             in Inr (db, g\<lparr>Hdr := hdr\<rparr>))"

section \<open>Export (MpExport.c: main)\<close>

text \<open>
  \<open>fprintf\<close> for the conversions the program uses, \<open>%s\<close> and \<open>%d\<close>; \<open>dec n\<close> is the
  decimal numeral of \<open>n\<close>. The result is the text written.
\<close>

function dec :: "nat \<Rightarrow> Byte list" where
  "dec n = (if n < 10 then [of_nat (48 + n)] else dec (n div 10) @ [of_nat (48 + n mod 10)])"
  by pat_completeness auto
termination
  by (relation "measure id") auto

declare dec.simps [simp del]

datatype arg = Str "Byte list" | Num int

fun fprintf :: "Byte list \<Rightarrow> arg list \<Rightarrow> Byte list" where
  "fprintf [] args = []"
| "fprintf [c] args = [c]"
| "fprintf (c # d # fmt) args =
     (if c = 0x25 \<and> d = 0x73
      then (case args of Str s # args' \<Rightarrow> cstr s @ fprintf fmt args' | _ \<Rightarrow> [])
      else if c = 0x25 \<and> d = 0x64
      then (case args of
              Num i # args' \<Rightarrow>
                (if i < 0 then 0x2D # dec (nat (- i)) else dec (nat i)) @ fprintf fmt args'
            | _ \<Rightarrow> [])
      else c # fprintf (d # fmt) args)"

text \<open>\<^verbatim>\<open>while ((c = fgetc(db)) > 0) fputc(c, text);\<close>\<close>

function copy_text :: "FILE \<Rightarrow> Byte list \<Rightarrow> FILE \<times> Byte list" where
  "copy_text db out =
     (let (c, db') = fgetc db
      in if c > 0 then copy_text db' (out @ [word_of_int c]) else (db', out))"
  by pat_completeness auto
termination
  by (relation "measure (\<lambda>(db, out). length (content db) - fpos db)")
    (auto simp: fgetc_def split: if_splits)

declare copy_text.simps [simp del]

text \<open>
  The body of the \<open>for\<close> loop of \<open>main\<close> (lines 122 to 146): one record is exported.
  \<open>info\<close> is the memory of the \<open>AppInfoType\<close> read from the file, \<open>out\<close> the text written
  so far. \<open>%s\<close> prints from \<open>info.categoryLabels[catnum]\<close> up to the next NUL; a table
  with no NUL from there on makes it read past \<open>info\<close>.
\<close>

definition offsetof_categoryLabels :: nat where "offsetof_categoryLabels = 2"

definition MpExport_record ::
  "Byte list \<Rightarrow> FILE \<Rightarrow> RecordEntryType \<Rightarrow> Byte list \<Rightarrow> error + FILE \<times> Byte list" where
  "MpExport_record info db entryptr out =
     (let catnum = attributes entryptr AND dmRecAttrCategoryMask;
          secret = (if attributes entryptr AND dmRecAttrSecret \<noteq> 0 then 1 else 0);
          entryptr = entryptr\<lparr>localChunkID := SwapDWord (localChunkID entryptr)\<rparr>;
          db = fseek (long_of_DWord (localChunkID entryptr)) db;
          (item, db) = fread offsetof_text db
      in if length item \<noteq> offsetof_text then Inl IOError
         else
           let label = drop (offsetof_categoryLabels + dmCategoryLength * unat catnum) info
           in if 0 \<notin> set label then Inl Undefined
              else
                let out = out @ fprintf CategoryLine [Str label, Num secret];
                    out = out @ fprintf PlacesLine [Num (uint (item ! 0)), Num (uint (item ! 1))];
                    (db, out) = copy_text db out;
                    out = out @ [0x0A];
                    out = out @ cstr SeparatorLine
                in Inr (db, out))"

fun MpExport_entries ::
  "Byte list \<Rightarrow> FILE \<Rightarrow> RecordEntryType list \<Rightarrow> Byte list \<Rightarrow> error + FILE \<times> Byte list" where
  "MpExport_entries info db [] out = Inr (db, out)"
| "MpExport_entries info db (entryptr # entries) out =
     (case MpExport_record info db entryptr out of
        Inl e \<Rightarrow> Inl e
      | Inr (db, out) \<Rightarrow> MpExport_entries info db entries out)"

text \<open>
  The body of the \<open>do ... while (listpos)\<close> loop of \<open>main\<close> (lines 96 to 155), and the
  loop.
\<close>

definition MpExport_list ::
  "Byte list \<Rightarrow> FILE \<Rightarrow> int \<Rightarrow> Byte list \<Rightarrow> error + FILE \<times> int \<times> Byte list" where
  "MpExport_list info db listpos out =
     (let db = fseek listpos db;
          (mem, db) = fread offsetof_firstEntry db
      in if length mem \<noteq> offsetof_firstEntry then Inl IOError
         else
           let reclist = load_RecordListType mem;
               reclist = reclist\<lparr>numRecords := SwapWord (numRecords reclist)\<rparr>
           in case (if numRecords reclist > 0
                    then
                      let len = unat (numRecords reclist) * sizeof_RecordEntryType;
                          (mem, db) = fread len db
                      in if length mem \<noteq> len then Inl IOError
                         else MpExport_entries info db
                                (entries_of (unat (numRecords reclist)) mem) out
                    else Inr (db, out)) of
                Inl e \<Rightarrow> Inl e
              | Inr (db, out) \<Rightarrow>
                  let reclist = reclist\<lparr>nextRecordListID := SwapDWord (nextRecordListID reclist)\<rparr>;
                      listpos = long_of_DWord (nextRecordListID reclist)
                  in Inr (db, listpos, out))"

partial_function (option) MpExport_lists ::
  "Byte list \<Rightarrow> FILE \<Rightarrow> int \<Rightarrow> Byte list \<Rightarrow> (error + Byte list) option" where
  "MpExport_lists info db listpos out =
     (case MpExport_list info db listpos out of
        Inl e \<Rightarrow> Some (Inl e)
      | Inr (db, listpos, out) \<Rightarrow>
          if listpos \<noteq> 0 then MpExport_lists info db listpos out else Some (Inr out))"

declare MpExport_lists.simps [code]

text \<open>
  \<open>main\<close> of MpExport.c from the header on (lines 62 to 156): the result is the text
  written to the text file. The header check is that of \<open>LoadDB\<close>, but for the version
  word, which is left swapped.
\<close>

definition MpExport_check_Hdr :: "DatabaseHdrType \<Rightarrow> error + DatabaseHdrType" where
  "MpExport_check_Hdr hdr =
     (if strncmp (store_DWord (dbType hdr)) MathPadType 4 \<noteq> 0 \<or>
         strncmp (store_DWord (creator hdr)) MathPadCreator 4 \<noteq> 0
      then Inl FormatError
      else
        let hdr = hdr\<lparr>version := SwapWord (version hdr)\<rparr>
        in if version hdr \<noteq> MathPadVersion then Inl FormatError else Inr hdr)"

definition MpExport_main :: "FILE \<Rightarrow> (error + Byte list) option" where
  "MpExport_main db =
     (let (mem, db) = fread offsetof_recordList db
      in if length mem \<noteq> offsetof_recordList then Some (Inl IOError)
         else
           case MpExport_check_Hdr (load_DatabaseHdrType mem) of
             Inl e \<Rightarrow> Some (Inl e)
           | Inr hdr \<Rightarrow>
               let listpos = ftell db;
                   hdr = hdr\<lparr>appInfoID := SwapDWord (appInfoID hdr)\<rparr>;
                   db = fseek (long_of_DWord (appInfoID hdr)) db;
                   (info, db) = fread sizeof_AppInfoType db
               in if length info \<noteq> sizeof_AppInfoType then Some (Inl IOError)
                  else MpExport_lists info db listpos [])"

section \<open>Notions used to state the claims\<close>

text \<open>
  The title of a text ends at its first \<open>PilotEOL\<close> or, when there is none, at the NUL
  that ends the text: \<open>title_len p\<close> is the number of chars before that byte, and
  \<open>char_at p i\<close> the char at position \<open>i\<close> of the string (the NUL at its end).
\<close>

definition title_len :: "Byte list \<Rightarrow> nat" where
  "title_len p = length (takeWhile (\<lambda>c. c \<noteq> 0 \<and> c \<noteq> PilotEOL) p)"

definition char_at :: "Byte list \<Rightarrow> nat \<Rightarrow> Byte" where
  "char_at p i = deref (drop i p)"


text \<open>
  The invariant of the category table: the unique id of a slot in use (its name is not
  empty) differs from the unique id of every other slot.
\<close>

definition uniq_ids :: "AppInfoType \<Rightarrow> bool" where
  "uniq_ids a \<longleftrightarrow>
     (\<forall>i < dmRecNumCategories. \<forall>j < dmRecNumCategories.
        i \<noteq> j \<and> deref (categoryLabels a ! i) \<noteq> 0 \<longrightarrow> categoryUniqIDs a ! i \<noteq> categoryUniqIDs a ! j)"

text \<open>
  A header of the supported format, by the bytes of the file: the type tag \<open>Data\<close> at
  offset 60, the creator tag \<open>MthP\<close> at offset 64, and the version word 1 at offset 34,
  most significant byte first.
\<close>

definition good_header :: "Byte list \<Rightarrow> bool" where
  "good_header mem \<longleftrightarrow>
     field 60 4 mem = bytes ''Data'' \<and> field 64 4 mem = bytes ''MthP'' \<and> field 34 2 mem = [0, 1]"

text \<open>The number a field of the file stands for: most significant byte first.\<close>

definition be16 :: "Byte list \<Rightarrow> nat" where
  "be16 bs = unat (bs ! 0) * 256 + unat (bs ! 1)"

definition be32 :: "Byte list \<Rightarrow> nat" where
  "be32 bs = unat (bs ! 0) * 16777216 + unat (bs ! 1) * 65536 + unat (bs ! 2) * 256 + unat (bs ! 3)"

text \<open>
  The position at which \<open>LoadDB\<close> and MpExport's \<open>main\<close> read the record of an entry:
  the entry's offset, or, when that is negative as a \<open>long\<close>, the position the stream
  is at, the \<open>fseek\<close> having failed.
\<close>

definition seek_pos :: "FILE \<Rightarrow> RecordEntryType \<Rightarrow> nat" where
  "seek_pos db e =
     (let off = long_of_DWord (SwapDWord (localChunkID e)) in if off < 0 then fpos db else nat off)"

text \<open>
  What \<open>SaveDB\<close> writes for a record: \<open>rec_bytes\<close> is the record as it stands in the
  file (the two bytes of its header, its text and the NUL), \<open>rec_attributes\<close> the
  attribute byte of its entry, \<open>entry_bytes pos\<close> the entry of a record written at the
  position \<open>pos\<close>, and \<open>entries_bytes pos\<close> the entries of records written one after
  the other from \<open>pos\<close> on. \<open>record_pos g i\<close> is the position of record \<open>i\<close> in the file
  \<open>SaveDB\<close> writes: after the header, the record list header, the entries, the
  category table and the records before it.
\<close>

definition rec_bytes :: "Record \<Rightarrow> Byte list" where
  "rec_bytes r = [places r, stripzeros r] @ cstr (rtext r) @ [0]"

definition rec_attributes :: "Record \<Rightarrow> Byte" where
  "rec_attributes r = (if secret r \<noteq> 0 then catnum r OR dmRecAttrSecret else catnum r)"

definition entry_bytes :: "nat \<Rightarrow> Record \<Rightarrow> Byte list" where
  "entry_bytes pos r =
     store_RecordEntryType
       \<lparr>localChunkID = SwapDWord (DWord_of_long (int pos)), attributes = rec_attributes r,
        uniqueID = [0, 0, 0]\<rparr>"

fun entries_bytes :: "nat \<Rightarrow> Record list \<Rightarrow> Byte list" where
  "entries_bytes pos [] = []"
| "entries_bytes pos (r # rs) = entry_bytes pos r @ entries_bytes (pos + length (rec_bytes r)) rs"

definition record_pos :: "globals \<Rightarrow> nat \<Rightarrow> nat" where
  "record_pos g i =
     offsetof_recordList + offsetof_firstEntry +
     sizeof_RecordEntryType * length (RecordList g) +
     length (store_MathPadAppInfoType (MpInfo g)) +
     length (concat (map rec_bytes (take i (RecordList g))))"

text \<open>
  The lines of a record's text are the chars between its \<open>PilotEOL\<close>s. \<open>line_ok\<close> says
  that \<open>ReadLine\<close> hands a line back as it stands in the text file: with its line end
  it fits the 255 chars that \<open>fgets\<close> delivers for a buffer of 256, it has no carriage
  return, and it does not begin as the separator line does.
\<close>

fun text_lines :: "Byte list \<Rightarrow> Byte list list" where
  "text_lines [] = [[]]"
| "text_lines (c # t) =
     (if c = PilotEOL then [] # text_lines t
      else (c # hd (text_lines t)) # tl (text_lines t))"

definition line_ok :: "Byte list \<Rightarrow> bool" where
  "line_ok l \<longleftrightarrow>
     length l + 1 < 256 \<and> 0x0D \<notin> set l \<and>
     take SepTestLength l \<noteq> take SepTestLength SeparatorLine"

text \<open>
  What lines 138 to 146 of MpExport's \<open>main\<close> write for a record, said of the record
  and the category table as \<open>LoadDB\<close> holds them in memory.
\<close>

definition export_block :: "MathPadAppInfoType \<Rightarrow> Record \<Rightarrow> Byte list" where
  "export_block info r =
     fprintf CategoryLine
       [Str (categoryLabels (appinfo info) ! unat (catnum r)), Num (uint (secret r))] @
     fprintf PlacesLine [Num (uint (places r)), Num (uint (stripzeros r))] @
     rtext r @ [0x0A] @ cstr SeparatorLine"

text \<open>
  \<open>loaded\<close>: what holds of every record \<open>LoadDB\<close> makes. \<open>label_ok\<close>: the label of the
  record's category ends inside its slot of \<open>dmCategoryLength\<close> chars.
\<close>

definition loaded :: "Record \<Rightarrow> bool" where
  "loaded r \<longleftrightarrow> unat (catnum r) < dmRecNumCategories \<and> secret r \<le> 1 \<and> 0 \<notin> set (rtext r)"

definition label_ok :: "MathPadAppInfoType \<Rightarrow> Record \<Rightarrow> bool" where
  "label_ok info r \<longleftrightarrow>
     length (cstr (categoryLabels (appinfo info) ! unat (catnum r))) < dmCategoryLength"

text \<open>
  A record that \<open>LoadImport\<close> reads back from its exported text as it is: the label of
  its category ends inside its slot, has no double quote, line feed or carriage return
  in it, and is the label of no slot before the record's; \<open>stripzeros\<close> is 0 or 1; and
  every line of the text is \<open>line_ok\<close>.
\<close>

definition reimportable_record :: "MathPadAppInfoType \<Rightarrow> Record \<Rightarrow> bool" where
  "reimportable_record info r \<longleftrightarrow>
     (let labels = categoryLabels (appinfo info);
          label = cstr (labels ! unat (catnum r))
      in length label < dmCategoryLength \<and>
         0x22 \<notin> set label \<and> 0x0A \<notin> set label \<and> 0x0D \<notin> set label \<and>
         (\<forall>i \<in> set [0 ..< unat (catnum r)]. cstr (labels ! i) \<noteq> label) \<and>
         stripzeros r \<le> 1 \<and>
         (\<forall>l \<in> set (text_lines (rtext r)). line_ok l))"

text \<open>
  \<open>same_as_stored rs r\<close>: the node \<open>FindRecord\<close> returns for the title of \<open>r\<close> holds a
  record that the test of line 249 takes for the same as \<open>r\<close>. It fails for a record
  that comes after another one of the same title and differs from it.
\<close>

definition same_as_stored :: "Record list \<Rightarrow> Record \<Rightarrow> bool" where
  "same_as_stored rs r \<longleftrightarrow>
     (case FindRecord (rtext r) rs of
        None \<Rightarrow> False
      | Some recptr \<Rightarrow> \<not> differs r (rs ! recptr))"

definition reimportable :: "globals \<Rightarrow> bool" where
  "reimportable g \<longleftrightarrow>
     (\<forall>r \<in> set (RecordList g).
        reimportable_record (MpInfo g) r \<and> same_as_stored (RecordList g) r)"

text \<open>
  The imports of a run of \<open>ProcessImports\<close>: the records \<open>LoadImport\<close> returns when it
  is called on the text again and again until it returns \<open>NULL\<close>, and the category
  table it leaves. \<open>run_state Confirm recs g\<close> is the state of a run that started with
  the globals \<open>g\<close> after the loop body has processed the imports \<open>recs\<close>, and
  \<open>with_info info r\<close> the state \<open>r\<close> with the category table \<open>info\<close>.
\<close>

function LoadImports ::
  "Byte list \<Rightarrow> MathPadAppInfoType \<Rightarrow> error + Record list \<times> MathPadAppInfoType" where
  "LoadImports fp info =
     (case LoadImport fp info of
        Inl e \<Rightarrow> Inl e
      | Inr (None, fp', info') \<Rightarrow> Inr ([], info')
      | Inr (Some newrec, fp', info') \<Rightarrow>
          (case LoadImports fp' info' of
             Inl e \<Rightarrow> Inl e
           | Inr (recs, info'') \<Rightarrow> Inr (newrec # recs, info'')))"
  by pat_completeness auto
termination
  by (relation "measure (\<lambda>(fp, info). length fp)") (auto dest: LoadImport_shorter)

declare LoadImports.simps [simp del]

definition run_state :: "user \<Rightarrow> Record list \<Rightarrow> globals \<Rightarrow> run" where
  "run_state Confirm recs g =
     fold (ProcessImports_body Confirm) recs \<lparr>allok = False, asked = [], globs = g\<rparr>"

definition with_info :: "MathPadAppInfoType \<Rightarrow> run \<Rightarrow> run" where
  "with_info info r = r\<lparr>globs := (globs r)\<lparr>MpInfo := info\<rparr>\<rparr>"

section \<open>Example data\<close>

text \<open>
  A category table with three slots in use, and a table with all 16 slots in use.
\<close>

definition table_info :: MathPadAppInfoType where
  "table_info =
     \<lparr>appinfo =
        \<lparr>renamedCategories = 0,
         categoryLabels =
           [bytes ''Unfiled'' @ replicate 9 0, bytes ''Business'' @ replicate 8 0,
            bytes ''Personal'' @ replicate 8 0] @ replicate 13 (replicate 16 0),
         categoryUniqIDs = [0, 1, 2] @ replicate 13 0,
         lastUniqID = 0, padding = [0]\<rparr>,
      MathPadData = replicate 34 0\<rparr>"

definition full_info :: MathPadAppInfoType where
  "full_info =
     \<lparr>appinfo =
        \<lparr>renamedCategories = 0,
         categoryLabels = replicate 16 (bytes ''Taken'' @ replicate 11 0),
         categoryUniqIDs = replicate 16 7,
         lastUniqID = 7, padding = [0]\<rparr>,
      MathPadData = replicate 34 0\<rparr>"

text \<open>
  A database file of two records: the header, one record list of two entries, the
  category table and the records; and the globals \<open>LoadDB\<close> makes of it.
\<close>

definition example_hdr :: "Byte list" where
  "example_hdr = bytes ''Test'' @ replicate 28 0 @ [0,0] @ [0,1] @ replicate 16 0 @
     [0,0,0,94] @ [0,0,0,0] @ bytes ''Data'' @ bytes ''MthP'' @ [0,0,0,0]"

definition example_appinfo :: "Byte list" where
  "example_appinfo = [0,0] @ bytes ''Unfiled'' @ replicate 9 0 @ bytes ''Business'' @ replicate 8 0 @
     replicate 224 0 @ [0,1] @ replicate 14 0 @ [1, 0] @ replicate 34 0"

definition example_body :: "Byte list" where
  "example_body = [0,0,0,0, 0,2] @ [0,0,1,0x94, 0x11, 0,0,1] @ [0,0,1,0x9E, 0, 0,0,2] @
     example_appinfo @ [14, 1] @ bytes ''Foo'' @ [0x0A] @ bytes ''bar'' @ [0] @ [2, 0] @ bytes ''Baz'' @ [0]"

definition example_db :: "Byte list" where
  "example_db = example_hdr @ example_body"

definition example_globals :: globals where
  "example_globals =
     \<lparr>Hdr = (load_DatabaseHdrType example_hdr)\<lparr>appInfoID := 94\<rparr>,
      MpInfo = load_MathPadAppInfoType example_appinfo,
      RecordList =
        [\<lparr>catnum = 1, places = 14, secret = 1, stripzeros = 1, rtext = bytes ''Foo'' @ [0x0A] @ bytes ''bar''\<rparr>,
         \<lparr>catnum = 0, places = 2, secret = 0, stripzeros = 0, rtext = bytes ''Baz''\<rparr>],
      NumRecords = 2\<rparr>"

text \<open>
  The text MpExport writes for the example file. A second file, as the first but for
  the text of its second record, which has the title of the first; the globals \<open>LoadDB\<close>
  makes of it and the text MpExport writes for it. And two users, one who answers no
  to every question and one who answers yes.
\<close>

definition example_text :: "Byte list" where
  "example_text =
     bytes ''Category = '' @ [0x22] @ bytes ''Business'' @ [0x22] @ bytes ''; Secret = 1'' @ [0x0A] @
     bytes ''Places = 14; StripZeros = 1'' @ [0x0A] @
     bytes ''Foo'' @ [0x0A] @ bytes ''bar'' @ [0x0A] @
     bytes ''~~~~~~~~~~~~~~~~~~~~~~~~~~~'' @ [0x0A] @
     bytes ''Category = '' @ [0x22] @ bytes ''Unfiled'' @ [0x22] @ bytes ''; Secret = 0'' @ [0x0A] @
     bytes ''Places = 2; StripZeros = 0'' @ [0x0A] @
     bytes ''Baz'' @ [0x0A] @
     bytes ''~~~~~~~~~~~~~~~~~~~~~~~~~~~'' @ [0x0A]"

definition twins_db :: "Byte list" where
  "twins_db = example_hdr @ [0,0,0,0, 0,2] @ [0,0,1,0x94, 0x11, 0,0,1] @ [0,0,1,0x9E, 0, 0,0,2] @
     example_appinfo @ [14, 1] @ bytes ''Foo'' @ [0x0A] @ bytes ''bar'' @ [0] @
     [2, 0] @ bytes ''Foo'' @ [0x0A] @ bytes ''baz'' @ [0]"

definition twins_globals :: globals where
  "twins_globals =
     \<lparr>Hdr = (load_DatabaseHdrType example_hdr)\<lparr>appInfoID := 94\<rparr>,
      MpInfo = load_MathPadAppInfoType example_appinfo,
      RecordList =
        [\<lparr>catnum = 1, places = 14, secret = 1, stripzeros = 1, rtext = bytes ''Foo'' @ [0x0A] @ bytes ''bar''\<rparr>,
         \<lparr>catnum = 0, places = 2, secret = 0, stripzeros = 0, rtext = bytes ''Foo'' @ [0x0A] @ bytes ''baz''\<rparr>],
      NumRecords = 2\<rparr>"

definition twins_text :: "Byte list" where
  "twins_text =
     bytes ''Category = '' @ [0x22] @ bytes ''Business'' @ [0x22] @ bytes ''; Secret = 1'' @ [0x0A] @
     bytes ''Places = 14; StripZeros = 1'' @ [0x0A] @
     bytes ''Foo'' @ [0x0A] @ bytes ''bar'' @ [0x0A] @
     bytes ''~~~~~~~~~~~~~~~~~~~~~~~~~~~'' @ [0x0A] @
     bytes ''Category = '' @ [0x22] @ bytes ''Unfiled'' @ [0x22] @ bytes ''; Secret = 0'' @ [0x0A] @
     bytes ''Places = 2; StripZeros = 0'' @ [0x0A] @
     bytes ''Foo'' @ [0x0A] @ bytes ''baz'' @ [0x0A] @
     bytes ''~~~~~~~~~~~~~~~~~~~~~~~~~~~'' @ [0x0A]"

definition answer_NO :: user where
  "answer_NO titles = NO"

definition answer_YES :: user where
  "answer_YES titles = YES"








section \<open>Facts about the byte views\<close>

lemma byte_at_0_Word: "byte_at 0 (Word_of_bytes a b) = a"
  unfolding byte_at_def Word_of_bytes_def
  by (rule bit_word_eqI) (auto simp: bit_simps)

lemma byte_at_1_Word: "byte_at (Suc 0) (Word_of_bytes a b) = b"
  unfolding byte_at_def Word_of_bytes_def
  by (rule bit_word_eqI) (auto simp: bit_simps dest: bit_imp_le_length)

lemma Word_of_bytes_byte_at: "Word_of_bytes (byte_at 0 w) (byte_at (Suc 0) w) = w"
  unfolding byte_at_def Word_of_bytes_def
  by (rule bit_word_eqI) (auto simp: bit_simps)

lemma word_at_0_DWord: "word_at 0 (DWord_of_words a b) = a"
  unfolding word_at_def DWord_of_words_def
  by (rule bit_word_eqI) (auto simp: bit_simps)

lemma word_at_1_DWord: "word_at (Suc 0) (DWord_of_words a b) = b"
  unfolding word_at_def DWord_of_words_def
  by (rule bit_word_eqI) (auto simp: bit_simps dest: bit_imp_le_length)

lemma DWord_of_words_word_at: "DWord_of_words (word_at 0 d) (word_at (Suc 0) d) = d"
  unfolding word_at_def DWord_of_words_def
  by (rule bit_word_eqI) (auto simp: bit_simps)

lemma SwapWord_bytes: "SwapWord (Word_of_bytes a b) = Word_of_bytes b a"
  by (simp add: SwapWord_def Let_def byte_at_0_Word byte_at_1_Word)

lemma SwapWord_twice: "SwapWord (SwapWord w) = w"
  by (simp add: SwapWord_def Let_def byte_at_0_Word byte_at_1_Word Word_of_bytes_byte_at)

lemma SwapDWord_twice: "SwapDWord (SwapDWord d) = d"
  by (simp add: SwapDWord_def Let_def word_at_0_DWord word_at_1_DWord
      DWord_of_words_word_at SwapWord_twice)

section \<open>Facts about the record store\<close>

lemma char_at_0: "char_at p 0 = deref p"
  by (simp add: char_at_def)

lemma char_at_Suc: "char_at p (Suc i) = char_at (tl p) i"
  by (cases p) (simp_all add: char_at_def)

lemma title_len_Nil: "title_len [] = 0"
  by (simp add: title_len_def)

lemma title_len_Cons:
  "title_len (c # p) = (if c \<noteq> 0 \<and> c \<noteq> PilotEOL then Suc (title_len p) else 0)"
  by (simp add: title_len_def)

lemma title_match_iff:
  "title_match p1 p2 \<longleftrightarrow> (\<forall>i \<le> title_len p1. char_at p2 i = char_at p1 i)"
proof (induction p1 p2 rule: title_match.induct)
  case (1 p2)
  then show ?case by (auto simp: title_len_Nil char_at_0)
next
  case (2 c p1 p2)
  show ?case
  proof (cases "c \<noteq> 0 \<and> c \<noteq> PilotEOL \<and> c = deref p2")
    case True
    have "(\<forall>i \<le> Suc (title_len p1). char_at p2 i = char_at (c # p1) i) \<longleftrightarrow>
          (char_at p2 0 = char_at (c # p1) 0 \<and> (\<forall>i \<le> title_len p1. char_at p2 (Suc i) = char_at (c # p1) (Suc i)))"
      by (metis Suc_le_mono le0 not0_implies_Suc)
    with True 2 show ?thesis
      by (simp add: title_len_Cons char_at_Suc char_at_0)
  next
    case False
    show ?thesis
    proof (cases "c \<noteq> 0 \<and> c \<noteq> PilotEOL")
      case True
      with False have ne: "c \<noteq> deref p2" by simp
      then have "\<not> (\<forall>i \<le> title_len (c # p1). char_at p2 i = char_at (c # p1) i)"
        by (metis char_at_0 deref.simps(2) le0)
      with False ne show ?thesis by simp
    next
      case F2: False
      then show ?thesis by (auto simp: title_len_Cons char_at_0)
    qed
  qed
qed


lemma FindRecord_Some_iff:
  "FindRecord title rs = Some i \<longleftrightarrow>
     i < length rs \<and> title_match title (rtext (rs ! i)) \<and>
     (\<forall>j < i. \<not> title_match title (rtext (rs ! j)))"
proof (induction rs arbitrary: i)
  case Nil
  then show ?case by simp
next
  case (Cons r rs)
  show ?case
  proof (cases "title_match title (rtext r)")
    case True
    then show ?thesis by (cases i) auto
  next
    case False
    show ?thesis
    proof (cases i)
      case 0
      with False show ?thesis by simp
    next
      case (Suc k)
      have "(\<forall>j < Suc k. \<not> title_match title (rtext ((r # rs) ! j))) \<longleftrightarrow>
            (\<forall>j < k. \<not> title_match title (rtext (rs ! j)))"
        using False by (auto simp: less_Suc_eq_0_disj)
      with False Suc Cons [of k] show ?thesis by auto
    qed
  qed
qed

lemma FindRecord_None_iff:
  "FindRecord title rs = None \<longleftrightarrow> (\<forall>r \<in> set rs. \<not> title_match title (rtext r))"
  by (induction rs) auto



section \<open>Facts about the category table\<close>

lemma for_break_le: "for_break P k i \<le> i + k"
  by (induction P k i rule: for_break.induct) auto

lemma for_break_ge: "i \<le> for_break P k i"
  by (induction P k i rule: for_break.induct) (auto intro: Suc_leD)

lemma for_break_found: "for_break P k i < i + k \<Longrightarrow> P (for_break P k i)"
  by (induction P k i rule: for_break.induct) (auto split: if_splits)

lemma for_break_first: "i \<le> j \<Longrightarrow> j < for_break P k i \<Longrightarrow> \<not> P j"
proof (induction P k i rule: for_break.induct)
  case (1 P i)
  then show ?case by simp
next
  case (2 P k i)
  then show ?case
    by (cases "j = i") (auto split: if_splits)
qed

lemma for_break_none: "for_break P k i \<ge> i + k \<longleftrightarrow> (\<forall>j. i \<le> j \<and> j < i + k \<longrightarrow> \<not> P j)"
  using for_break_less [of P k i] by (auto simp: not_less [symmetric])

lemma NextUniqID_free: "NextUniqID ids c \<notin> ids_used ids"
proof (induction ids c rule: NextUniqID.induct)
  case (1 ids uid)
  show ?case
  proof (cases "uid + 1 \<in> ids_used ids")
    case True
    have "NextUniqID ids (uid + 1) \<notin> ids_used ids"
      by (rule "1.IH" [OF refl refl]) (simp add: for_break_ids True)
    with True show ?thesis
      by (simp add: NextUniqID.simps [of ids uid] Let_def for_break_ids)
  next
    case False
    then show ?thesis
      by (simp add: NextUniqID.simps [of ids uid] Let_def for_break_ids)
  qed
qed

lemma NextUniqID_skips:
  "\<exists>n. NextUniqID ids c = c + 1 + of_nat n \<and> (\<forall>m < n. c + 1 + of_nat m \<in> ids_used ids)"
proof (induction ids c rule: NextUniqID.induct)
  case (1 ids uid)
  show ?case
  proof (cases "uid + 1 \<in> ids_used ids")
    case True
    have "\<exists>n. NextUniqID ids (uid + 1) = uid + 1 + 1 + of_nat n \<and>
              (\<forall>m < n. uid + 1 + 1 + of_nat m \<in> ids_used ids)"
      by (rule "1.IH" [OF refl refl]) (simp add: for_break_ids True)
    then obtain n where n: "NextUniqID ids (uid + 1) = uid + 1 + 1 + of_nat n"
      and m: "\<forall>m < n. uid + 1 + 1 + of_nat m \<in> ids_used ids"
      by blast
    have eq: "NextUniqID ids uid = NextUniqID ids (uid + 1)"
      using True by (simp add: NextUniqID.simps [of ids uid] Let_def for_break_ids)
    have "\<forall>m < Suc n. uid + 1 + of_nat m \<in> ids_used ids"
    proof (intro allI impI)
      fix m assume "m < Suc n"
      show "uid + 1 + of_nat m \<in> ids_used ids"
      proof (cases m)
        case 0
        with True show ?thesis by simp
      next
        case (Suc k)
        with \<open>m < Suc n\<close> m have a: "uid + 1 + 1 + of_nat k \<in> ids_used ids" by simp
        have e: "uid + 1 + of_nat (Suc k) = uid + 1 + 1 + (of_nat k :: Byte)"
          by (simp only: of_nat_Suc add.assoc)
        show ?thesis unfolding Suc e by (rule a)
      qed
    qed
    moreover have "uid + 1 + of_nat (Suc n) = uid + 1 + 1 + (of_nat n :: Byte)"
      by (simp only: of_nat_Suc add.assoc)
    then have "NextUniqID ids uid = uid + 1 + of_nat (Suc n)"
      using eq n by (simp only:)
    ultimately show ?thesis by blast
  next
    case False
    then have "NextUniqID ids uid = uid + 1 + of_nat 0"
      by (simp add: NextUniqID.simps [of ids uid] Let_def for_break_ids)
    then show ?thesis by (metis not_less_zero)
  qed
qed

lemma strcmp_Nil: "strcmp l [] = 0 \<longleftrightarrow> deref l = 0"
  by (cases l) auto

text \<open>What \<open>LoadImport_catnum\<close> does, by cases.\<close>

lemma LoadImport_catnum_found:
  assumes "for_break (\<lambda>i. strcmp (categoryLabels (appinfo info) ! i) catname = 0) dmRecNumCategories 0 < dmRecNumCategories"
  shows "LoadImport_catnum catname info =
    (of_nat (for_break (\<lambda>i. strcmp (categoryLabels (appinfo info) ! i) catname = 0) dmRecNumCategories 0), info)"
  using assms by (simp add: LoadImport_catnum_def Let_def)

lemma LoadImport_catnum_full:
  assumes absent: "\<forall>i < dmRecNumCategories. strcmp (categoryLabels (appinfo info) ! i) catname \<noteq> 0"
    and full: "\<forall>i < dmRecNumCategories. deref (categoryLabels (appinfo info) ! i) \<noteq> 0"
  shows "LoadImport_catnum catname info = (dmUnfiledCategory, info)"
proof -
  have 1: "for_break (\<lambda>i. strcmp (categoryLabels (appinfo info) ! i) catname = 0) dmRecNumCategories 0 \<ge> dmRecNumCategories"
    using absent for_break_none [of 0 dmRecNumCategories "\<lambda>i. strcmp (categoryLabels (appinfo info) ! i) catname = 0"] by simp
  have 2: "for_break (\<lambda>i. deref (categoryLabels (appinfo info) ! i) = 0) dmRecNumCategories 0 \<ge> dmRecNumCategories"
    using full for_break_none [of 0 dmRecNumCategories "\<lambda>i. deref (categoryLabels (appinfo info) ! i) = 0"] by simp
  from 1 2 show ?thesis by (simp add: LoadImport_catnum_def Let_def)
qed

lemma LoadImport_catnum_alloc:
  assumes absent: "\<forall>i < dmRecNumCategories. strcmp (categoryLabels (appinfo info) ! i) catname \<noteq> 0"
    and free: "\<exists>i < dmRecNumCategories. deref (categoryLabels (appinfo info) ! i) = 0"
  defines "k \<equiv> for_break (\<lambda>i. deref (categoryLabels (appinfo info) ! i) = 0) dmRecNumCategories 0"
  defines "u \<equiv> NextUniqID (categoryUniqIDs (appinfo info)) (lastUniqID (appinfo info))"
  shows "k < dmRecNumCategories"
    and "deref (categoryLabels (appinfo info) ! k) = 0"
    and "\<forall>j < k. deref (categoryLabels (appinfo info) ! j) \<noteq> 0"
    and "LoadImport_catnum catname info =
      (of_nat k, info\<lparr>appinfo := (appinfo info)\<lparr>
          categoryLabels := (categoryLabels (appinfo info))[k := strcpy (categoryLabels (appinfo info) ! k) catname],
          lastUniqID := u,
          categoryUniqIDs := (categoryUniqIDs (appinfo info))[k := u]\<rparr>\<rparr>)"
proof -
  have 1: "for_break (\<lambda>i. strcmp (categoryLabels (appinfo info) ! i) catname = 0) dmRecNumCategories 0 \<ge> dmRecNumCategories"
    using absent for_break_none [of 0 dmRecNumCategories "\<lambda>i. strcmp (categoryLabels (appinfo info) ! i) catname = 0"] by simp
  show k: "k < dmRecNumCategories"
    using free for_break_less [of "\<lambda>i. deref (categoryLabels (appinfo info) ! i) = 0" dmRecNumCategories 0]
    by (auto simp: k_def)
  then show "deref (categoryLabels (appinfo info) ! k) = 0"
    using for_break_found [of "\<lambda>i. deref (categoryLabels (appinfo info) ! i) = 0" dmRecNumCategories 0]
    by (simp add: k_def)
  show "\<forall>j < k. deref (categoryLabels (appinfo info) ! j) \<noteq> 0"
    using for_break_first [of 0 _ "\<lambda>i. deref (categoryLabels (appinfo info) ! i) = 0" dmRecNumCategories]
    by (simp add: k_def)
  show "LoadImport_catnum catname info =
      (of_nat k, info\<lparr>appinfo := (appinfo info)\<lparr>
          categoryLabels := (categoryLabels (appinfo info))[k := strcpy (categoryLabels (appinfo info) ! k) catname],
          lastUniqID := u,
          categoryUniqIDs := (categoryUniqIDs (appinfo info))[k := u]\<rparr>\<rparr>)"
    using 1 k unfolding k_def u_def by (simp add: LoadImport_catnum_def Let_def)
qed

lemma strchr_append:
  "c \<notin> set xs \<Longrightarrow> 0 \<notin> set xs \<Longrightarrow> strchr (xs @ c # ys) c = Some (c # ys)"
  by (induction xs) auto

lemma LoadImport_catname_line:
  assumes "0x22 \<notin> set cname" "0 \<notin> set cname"
  shows "LoadImport_catname (bytes ''Category = '' @ [0x22] @ cname @ [0x22] @ rest) =
         Inr (take (dmCategoryLength - 1) cname, 0x22 # rest)"
proof -
  have 1: "strchr (bytes ''Category = '' @ [0x22] @ cname @ [0x22] @ rest) 0x22 =
           Some (0x22 # cname @ 0x22 # rest)"
    by (simp add: bytes_def)
  have 2: "strchr (cname @ 0x22 # rest) 0x22 = Some (0x22 # rest)"
    using assms by (rule strchr_append)
  from 1 2 show ?thesis
    by (simp add: LoadImport_catname_def Let_def dmCategoryLength_def)
qed

lemma CategoryLine_test:
  "strncmp (bytes ''Category = '' @ [0x22] @ rest) CategoryLine CatTestLength = 0"
  by (simp add: bytes_def CategoryLine_def CatTestLength_def numeral_eq_Suc)

lemma LoadImport_catline_category:
  assumes cat: "strncmp buff CategoryLine CatTestLength = 0"
    and name: "LoadImport_catname buff = Inr (catname, endq)"
    and res: "LoadImport_catline n buff fp info = Inr (res, fp', info')"
  shows "info' = snd (LoadImport_catnum catname info) \<and>
         (\<forall>c s n' b. res = Some (c, s, n', b) \<longrightarrow> c = fst (LoadImport_catnum catname info))"
proof -
  obtain c i1 where ci: "LoadImport_catnum catname info = (c, i1)" by (cases "LoadImport_catnum catname info")
  have catg: "LoadImport_category buff info = Inr (c, endq, i1)"
    by (simp add: LoadImport_category_def name ci)
  show ?thesis
  proof (cases "strchr (tl endq) 0x3D")
    case None
    with res cat catg show ?thesis by (simp add: LoadImport_catline_def)
  next
    case (Some q)
    show ?thesis
    proof (cases "ReadLine buff 256 fp")
      case (Inl e)
      with res cat catg Some show ?thesis by (simp add: LoadImport_catline_def Let_def)
    next
      case (Inr t)
      obtain m b f where t: "t = (m, b, f)" by (cases t)
      with res cat catg Some Inr ci show ?thesis
        by (cases "m < 1") (auto simp: LoadImport_catline_def Let_def)
    qed
  qed
qed

lemma LoadImport_category_line:
  assumes first: "ReadLine_nonblank [] fp = Inr (n, buff, fp1)"
    and cat: "strncmp buff CategoryLine CatTestLength = 0"
    and name: "LoadImport_catname buff = Inr (catname, endq)"
    and res: "LoadImport fp info = Inr (res, fp', info')"
  shows "(n < 1 \<longrightarrow> info' = info \<and> res = None) \<and>
         (1 \<le> n \<longrightarrow> info' = snd (LoadImport_catnum catname info) \<and>
            (\<forall>newrec. res = Some newrec \<longrightarrow> catnum newrec = fst (LoadImport_catnum catname info)))"
proof (cases "n < 1")
  case True
  with res first show ?thesis by (simp add: LoadImport_def)
next
  case False
  show ?thesis
  proof (cases "LoadImport_catline n buff fp1 info")
    case (Inl e)
    with res first False show ?thesis by (simp add: LoadImport_def)
  next
    case (Inr u)
    obtain r2 f2 i2 where u: "u = (r2, f2, i2)" by (cases u)
    note cl = LoadImport_catline_category [OF cat name Inr [unfolded u]]
    show ?thesis
    proof (cases r2)
      case None
      with res first False Inr u cl show ?thesis by (simp add: LoadImport_def)
    next
      case (Some v)
      obtain c s n2 b2 where v: "v = (c, s, n2, b2)" by (cases v)
      show ?thesis
      proof (cases "LoadImport_placesline n2 b2 f2")
        case (Inl e)
        with res first False Inr u Some v show ?thesis by (simp add: LoadImport_def)
      next
        case Inr3: (Inr w)
        obtain r3 f3 where w: "w = (r3, f3)" by (cases w)
        show ?thesis
        proof (cases r3)
          case None
          with res first False Inr u Some v Inr3 w cl show ?thesis by (simp add: LoadImport_def)
        next
          case Some3: (Some x)
          obtain p z n3 b3 where x: "x = (p, z, n3, b3)" by (cases x)
          show ?thesis
          proof (cases "LoadImport_lines (take (nat n3) b3) b3 f3")
            case (Inl e)
            with res first False Inr u Some v Inr3 w Some3 x show ?thesis
              by (simp add: LoadImport_def)
          next
            case Inr4: (Inr y)
            obtain tx f4 where y: "y = (tx, f4)" by (cases y)
            with res first False Inr u Some v Inr3 w Some3 x Inr4 cl show ?thesis
              by (auto simp: LoadImport_def)
          qed
        qed
      qed
    qed
  qed
qed

lemma all_less_list_all: "(\<forall>i < n. P i) \<longleftrightarrow> list_all P [0 ..< n]"
  by (auto simp add: list_all_iff)

lemma ex_less_list_ex: "(\<exists>i < n. P i) \<longleftrightarrow> list_ex P [0 ..< n]"
  by (auto simp add: list_ex_iff)

section \<open>Facts about the database reader\<close>

lemma store_load_Word: "length bs = 2 \<Longrightarrow> store_Word (load_Word bs) = bs"
proof -
  assume "length bs = 2"
  then obtain a b where "bs = [a, b]"
    by (metis (no_types, opaque_lifting) One_nat_def Suc_1 length_0_conv length_Suc_conv)
  then show ?thesis
    by (simp add: store_Word_def load_Word_def byte_at_0_Word byte_at_1_Word)
qed

lemma load_store_Word: "load_Word (store_Word w) = w"
  by (simp add: store_Word_def load_Word_def Word_of_bytes_byte_at)

lemma store_load_DWord: "length bs = 4 \<Longrightarrow> store_DWord (load_DWord bs) = bs"
proof -
  assume l: "length bs = 4"
  have "store_DWord (load_DWord bs) = take 2 bs @ drop 2 bs"
    using l by (simp add: store_DWord_def load_DWord_def word_at_0_DWord word_at_1_DWord store_load_Word)
  then show ?thesis by simp
qed

lemma length_store_Word: "length (store_Word w) = 2"
  by (simp add: store_Word_def)

lemma length_store_DWord: "length (store_DWord w) = 4"
  by (simp add: store_DWord_def length_store_Word)

lemma load_store_DWord: "load_DWord (store_DWord d) = d"
  by (simp add: store_DWord_def load_DWord_def length_store_Word load_store_Word DWord_of_words_word_at)

lemma length_field: "off + n \<le> length mem \<Longrightarrow> length (field off n mem) = n"
  by (simp add: field_def)

lemma strncmp4:
  "length s = 4 \<Longrightarrow> 0 \<notin> set t \<Longrightarrow> length t = 4 \<Longrightarrow> strncmp s t 4 = 0 \<longleftrightarrow> s = t"
proof -
  assume s: "length s = 4" and z: "0 \<notin> set t" and t: "length t = 4"
  obtain a b c d where s': "s = [a, b, c, d]"
    using s by (auto simp: length_Suc_conv numeral_eq_Suc)
  obtain a' b' c' d' where t': "t = [a', b', c', d']"
    using t by (auto simp: length_Suc_conv numeral_eq_Suc)
  show ?thesis using z unfolding s' t'
    by (auto simp: numeral_eq_Suc)
qed

lemma Word_of_bytes_eq_1: "Word_of_bytes a b = 1 \<longleftrightarrow> a = 1 \<and> b = 0"
proof
  assume e: "Word_of_bytes a b = 1"
  have "byte_at 0 (Word_of_bytes a b) = a" "byte_at (Suc 0) (Word_of_bytes a b) = b"
    by (rule byte_at_0_Word, rule byte_at_1_Word)
  then show "a = 1 \<and> b = 0" unfolding e by (auto simp: byte_at_def)
next
  assume "a = 1 \<and> b = 0"
  then show "Word_of_bytes a b = 1" by (simp add: Word_of_bytes_def)
qed

lemma version_ok: "length bs = 2 \<Longrightarrow> SwapWord (load_Word bs) = MathPadVersion \<longleftrightarrow> bs = [0, 1]"
proof -
  assume "length bs = 2"
  then obtain a b where bs: "bs = [a, b]"
    by (auto simp: length_Suc_conv numeral_eq_Suc)
  show ?thesis
    by (auto simp: bs load_Word_def SwapWord_bytes MathPadVersion_def Word_of_bytes_eq_1)
qed

lemma unat_Word_of_bytes: "unat (Word_of_bytes a b) = unat a + 256 * unat b"
proof -
  have d: "(ucast a :: Word) + push_bit 8 (ucast b) = ucast a OR push_bit 8 (ucast b)"
    by (rule disjunctive_add) (auto simp: bit_simps dest: bit_imp_le_length)
  have u: "unat (ucast x :: Word) = unat x" for x :: Byte
  proof -
    have "unat x < 2 ^ 16" using unsigned_less [of x, where ?'a = nat] by simp
    then show ?thesis by (simp add: unsigned_ucast_eq take_bit_nat_eq_self)
  qed
  have a: "unat (ucast a :: Word) = unat a" by (rule u)
  have b: "unat (push_bit 8 (ucast b :: Word)) = 256 * unat b"
  proof -
    have "unat b < 256" using unsigned_less [of b, where ?'a = nat] by simp
    then show ?thesis
      by (simp add: push_bit_eq_mult unat_word_ariths u)
  qed
  have "unat a < 256" using unsigned_less [of a, where ?'a = nat] by simp
  moreover have "unat b < 256" using unsigned_less [of b, where ?'a = nat] by simp
  ultimately have "unat ((ucast a :: Word) + push_bit 8 (ucast b)) = unat a + 256 * unat b"
    using a b by (simp add: unat_word_ariths)
  then show ?thesis by (simp add: Word_of_bytes_def d [symmetric])
qed

lemma unat_DWord_of_words: "unat (DWord_of_words a b) = unat a + 65536 * unat b"
proof -
  have d: "(ucast a :: DWord) + push_bit 16 (ucast b) = ucast a OR push_bit 16 (ucast b)"
    by (rule disjunctive_add) (auto simp: bit_simps dest: bit_imp_le_length)
  have u: "unat (ucast x :: DWord) = unat x" for x :: Word
  proof -
    have "unat x < 2 ^ 32" using unsigned_less [of x, where ?'a = nat] by simp
    then show ?thesis by (simp add: unsigned_ucast_eq take_bit_nat_eq_self)
  qed
  have a: "unat (ucast a :: DWord) = unat a" by (rule u)
  have b: "unat (push_bit 16 (ucast b :: DWord)) = 65536 * unat b"
  proof -
    have "unat b < 65536" using unsigned_less [of b, where ?'a = nat] by simp
    then show ?thesis
      by (simp add: push_bit_eq_mult unat_word_ariths u)
  qed
  have "unat a < 65536" using unsigned_less [of a, where ?'a = nat] by simp
  moreover have "unat b < 65536" using unsigned_less [of b, where ?'a = nat] by simp
  ultimately have "unat ((ucast a :: DWord) + push_bit 16 (ucast b)) = unat a + 65536 * unat b"
    using a b by (simp add: unat_word_ariths)
  then show ?thesis by (simp add: DWord_of_words_def d [symmetric])
qed

lemma unat_SwapWord_load: "length bs = 2 \<Longrightarrow> unat (SwapWord (load_Word bs)) = be16 bs"
  by (simp add: load_Word_def SwapWord_bytes unat_Word_of_bytes be16_def)

lemma unat_SwapDWord_load: "length bs = 4 \<Longrightarrow> unat (SwapDWord (load_DWord bs)) = be32 bs"
  by (simp add: load_DWord_def load_Word_def SwapDWord_def Let_def word_at_0_DWord word_at_1_DWord
      SwapWord_bytes unat_Word_of_bytes unat_DWord_of_words be32_def)

lemma check_Hdr_iff:
  assumes "length mem = offsetof_recordList"
  shows "check_Hdr (load_DatabaseHdrType mem) =
           (if good_header mem then Inr (load_DatabaseHdrType mem) else Inl FormatError)"
proof -
  have l: "length (field 60 4 mem) = 4" "length (field 64 4 mem) = 4" "length (field 34 2 mem) = 2"
    using assms by (simp_all add: length_field offsetof_recordList_def)
  have t: "strncmp (store_DWord (dbType (load_DatabaseHdrType mem))) MathPadType 4 = 0 \<longleftrightarrow>
           field 60 4 mem = bytes ''Data''"
    using l by (simp add: load_DatabaseHdrType_def store_load_DWord MathPadType_def strncmp4 bytes_def)
  have c: "strncmp (store_DWord (creator (load_DatabaseHdrType mem))) MathPadCreator 4 = 0 \<longleftrightarrow>
           field 64 4 mem = bytes ''MthP''"
    using l by (simp add: load_DatabaseHdrType_def store_load_DWord MathPadCreator_def strncmp4 bytes_def)
  have v: "SwapWord (version (load_DatabaseHdrType mem)) = MathPadVersion \<longleftrightarrow> field 34 2 mem = [0, 1]"
    using l by (simp add: load_DatabaseHdrType_def version_ok)
  show ?thesis
    by (simp add: check_Hdr_def t c v good_header_def Let_def SwapWord_twice)
qed

lemma MpExport_check_Hdr_iff:
  assumes "length mem = offsetof_recordList"
  shows "MpExport_check_Hdr (load_DatabaseHdrType mem) =
           (if good_header mem then Inr ((load_DatabaseHdrType mem)\<lparr>version := MathPadVersion\<rparr>)
            else Inl FormatError)"
proof -
  have l: "length (field 60 4 mem) = 4" "length (field 64 4 mem) = 4" "length (field 34 2 mem) = 2"
    using assms by (simp_all add: length_field offsetof_recordList_def)
  have t: "strncmp (store_DWord (dbType (load_DatabaseHdrType mem))) MathPadType 4 = 0 \<longleftrightarrow>
           field 60 4 mem = bytes ''Data''"
    using l by (simp add: load_DatabaseHdrType_def store_load_DWord MathPadType_def strncmp4 bytes_def)
  have c: "strncmp (store_DWord (creator (load_DatabaseHdrType mem))) MathPadCreator 4 = 0 \<longleftrightarrow>
           field 64 4 mem = bytes ''MthP''"
    using l by (simp add: load_DatabaseHdrType_def store_load_DWord MathPadCreator_def strncmp4 bytes_def)
  have v: "SwapWord (version (load_DatabaseHdrType mem)) = MathPadVersion \<longleftrightarrow> field 34 2 mem = [0, 1]"
    using l by (simp add: load_DatabaseHdrType_def version_ok)
  show ?thesis
    by (auto simp: MpExport_check_Hdr_def t c v good_header_def Let_def)
qed

lemma fread_header:
  "length mem = n \<Longrightarrow> fread n \<lparr>content = mem @ rest, fpos = 0\<rparr> = (mem, \<lparr>content = mem @ rest, fpos = n\<rparr>)"
  by (simp add: fread_def)

lemma LoadDB_record_not_FormatError: "LoadDB_record db e \<noteq> Inl FormatError"
  by (simp add: LoadDB_record_def Let_def split: prod.splits)

lemma LoadDB_entries_not_FormatError: "LoadDB_entries db es g \<noteq> Inl FormatError"
  by (induction es arbitrary: db g) (auto simp: LoadDB_record_not_FormatError split: sum.splits)

lemma LoadDB_list_not_FormatError: "LoadDB_list db listpos g \<noteq> Inl FormatError"
  by (auto simp: LoadDB_list_def Let_def LoadDB_entries_not_FormatError
      split: prod.splits if_splits sum.splits)

lemma LoadDB_lists_not_FormatError:
  assumes "LoadDB_lists db listpos g = Some y"
  shows "y \<noteq> Inl FormatError"
proof (rule LoadDB_lists.raw_induct [where P = "\<lambda>db listpos g y. y \<noteq> Inl FormatError", OF _ assms])
  fix f :: "FILE \<Rightarrow> int \<Rightarrow> globals \<Rightarrow> (error + globals) option" and db listpos g y
  assume IH: "\<And>db listpos g y. f db listpos g = Some y \<Longrightarrow> y \<noteq> Inl FormatError"
  assume "(case LoadDB_list db listpos g of
             Inl e \<Rightarrow> Some (Inl e)
           | Inr (g, db, listpos) \<Rightarrow> if listpos \<noteq> 0 then f db listpos g else Some (Inr g)) = Some y"
  then show "y \<noteq> Inl FormatError"
    using LoadDB_list_not_FormatError [of db listpos g]
    by (auto split: sum.splits prod.splits if_splits dest: IH)
qed

lemma MpExport_record_not_FormatError: "MpExport_record info db e out \<noteq> Inl FormatError"
  by (simp add: MpExport_record_def Let_def split: prod.splits)

lemma MpExport_entries_not_FormatError: "MpExport_entries info db es out \<noteq> Inl FormatError"
  by (induction es arbitrary: db out) (auto simp: MpExport_record_not_FormatError split: sum.splits)

lemma MpExport_list_not_FormatError: "MpExport_list info db listpos out \<noteq> Inl FormatError"
  by (auto simp: MpExport_list_def Let_def MpExport_entries_not_FormatError
      split: prod.splits if_splits sum.splits)

lemma MpExport_lists_not_FormatError:
  assumes "MpExport_lists info db listpos out = Some y"
  shows "y \<noteq> Inl FormatError"
proof (rule MpExport_lists.raw_induct [where P = "\<lambda>info db listpos out y. y \<noteq> Inl FormatError", OF _ assms])
  fix f :: "Byte list \<Rightarrow> FILE \<Rightarrow> int \<Rightarrow> Byte list \<Rightarrow> (error + Byte list) option"
    and info db listpos out y
  assume IH: "\<And>info db listpos out y. f info db listpos out = Some y \<Longrightarrow> y \<noteq> Inl FormatError"
  assume "(case MpExport_list info db listpos out of
             Inl e \<Rightarrow> Some (Inl e)
           | Inr (db, listpos, out) \<Rightarrow>
               if listpos \<noteq> 0 then f info db listpos out else Some (Inr out)) = Some y"
  then show "y \<noteq> Inl FormatError"
    using MpExport_list_not_FormatError [of info db listpos out]
    by (auto split: sum.splits prod.splits if_splits dest: IH)
qed

lemma LoadDB_example:
  "LoadDB \<lparr>content = example_db, fpos = 0\<rparr> globals0 = Some (Inr example_globals)"
  by code_simp

section \<open>Facts about reading a record\<close>

lemma fgetc_in: "fpos db < length (content db) \<Longrightarrow>
    fgetc db = (uint (content db ! fpos db), db\<lparr>fpos := Suc (fpos db)\<rparr>)"
  by (simp add: fgetc_def)

lemma fgetc_eof: "\<not> fpos db < length (content db) \<Longrightarrow> fgetc db = (- 1, db)"
  by (simp add: fgetc_def)

lemma uint_pos_iff: "0 < uint (c :: Byte) \<longleftrightarrow> c \<noteq> 0"
  by (metis less_le uint_0_iff uint_ge_0)

lemma count_text_eq:
  "count_text len db =
     (len + length (cstr (drop (fpos db) (content db))),
      db\<lparr>fpos := fpos db + length (cstr (drop (fpos db) (content db))) +
                 (if 0 \<in> set (drop (fpos db) (content db)) then 1 else 0)\<rparr>)"
proof (induction len db rule: count_text.induct)
  case (1 len db)
  show ?case
  proof (cases "fpos db < length (content db)")
    case False
    then show ?thesis
      by (simp add: count_text.simps [of len db] fgetc_eof cstr_def)
  next
    case True
    then have d: "drop (fpos db) (content db) = content db ! fpos db # drop (Suc (fpos db)) (content db)"
      by (simp add: Cons_nth_drop_Suc)
    show ?thesis
    proof (cases "content db ! fpos db = 0")
      case z: True
      with True show ?thesis
        by (simp add: count_text.simps [of len db] fgetc_in d cstr_def)
    next
      case nz: False
      then have "0 < uint (content db ! fpos db)" by (simp add: uint_pos_iff)
      with True nz "1.IH" [OF fgetc_in [OF True, symmetric] refl] show ?thesis
        by (simp add: count_text.simps [of len db] fgetc_in d cstr_def)
    qed
  qed
qed

lemma copy_text_eq:
  "copy_text db out =
     (db\<lparr>fpos := fpos db + length (cstr (drop (fpos db) (content db))) +
                 (if 0 \<in> set (drop (fpos db) (content db)) then 1 else 0)\<rparr>,
      out @ cstr (drop (fpos db) (content db)))"
proof (induction db out rule: copy_text.induct)
  case (1 db out)
  show ?case
  proof (cases "fpos db < length (content db)")
    case False
    then show ?thesis
      by (simp add: copy_text.simps [of db out] fgetc_eof cstr_def)
  next
    case True
    then have d: "drop (fpos db) (content db) = content db ! fpos db # drop (Suc (fpos db)) (content db)"
      by (simp add: Cons_nth_drop_Suc)
    show ?thesis
    proof (cases "content db ! fpos db = 0")
      case z: True
      with True show ?thesis
        by (simp add: copy_text.simps [of db out] fgetc_in d cstr_def)
    next
      case nz: False
      then have "0 < uint (content db ! fpos db)" by (simp add: uint_pos_iff)
      with True nz "1.IH" [OF fgetc_in [OF True, symmetric] refl] show ?thesis
        by (simp add: copy_text.simps [of db out] fgetc_in d cstr_def)
    qed
  qed
qed

lemma cstr_no_zero: "0 \<notin> set (cstr p)"
  by (induction p) (auto simp: cstr_def)

lemma cstr_id: "0 \<notin> set p \<Longrightarrow> cstr p = p"
  by (induction p) (auto simp: cstr_def)

lemma cstr_append_zero: "0 \<notin> set p \<Longrightarrow> cstr (p @ 0 # q) = p"
  by (induction p) (auto simp: cstr_def)

lemma cstr_idem: "cstr (cstr p) = cstr p"
  by (simp add: cstr_id cstr_no_zero)

lemma split_at_zero: "0 \<in> set p \<Longrightarrow> p = cstr p @ 0 # drop (Suc (length (cstr p))) p"
  by (induction p) (auto simp: cstr_def)

lemma length_cstr_less: "0 \<in> set p \<longleftrightarrow> length (cstr p) < length p"
  by (induction p) (auto simp: cstr_def)

lemma take_Suc_cstr: "0 \<in> set p \<Longrightarrow> take (Suc (length (cstr p))) p = cstr p @ [0]"
  by (induction p) (auto simp: cstr_def)

lemma fread_at:
  "fread n (db\<lparr>fpos := p\<rparr>) =
     (take n (drop p (content db)), db\<lparr>fpos := p + length (take n (drop p (content db)))\<rparr>)"
  by (simp add: fread_def Let_def)

lemma take_2_drop:
  "p + 2 \<le> length xs \<Longrightarrow> take 2 (drop p xs) = [xs ! p, xs ! (p + 1)]"
  by (auto simp: numeral_2_eq_2 take_Suc_conv_app_nth hd_drop_conv_nth)

lemma LoadDB_record_eq:
  "LoadDB_record db e =
     (let pos = seek_pos db e;
          payload = drop (pos + offsetof_text) (content db)
      in if length (content db) < pos + offsetof_text then Inl IOError
         else if 0 \<notin> set payload then Inl Undefined
         else Inr (\<lparr>catnum = attributes e AND dmRecAttrCategoryMask,
                    places = content db ! pos,
                    secret = (if attributes e AND dmRecAttrSecret \<noteq> 0 then 1 else 0),
                    stripzeros = content db ! (pos + 1),
                    rtext = cstr payload\<rparr>,
                   db\<lparr>fpos := pos + offsetof_text + length (cstr payload) + 1\<rparr>))"
proof -
  define pos where "pos = seek_pos db e"
  define payload where "payload = drop (Suc (Suc pos)) (content db)"
  have seek: "fseek (long_of_DWord (SwapDWord (localChunkID e))) db = db\<lparr>fpos := pos\<rparr>"
    by (simp add: fseek_def pos_def seek_pos_def Let_def)
  have tell: "fseek (ftell (db\<lparr>fpos := q\<rparr>)) (db\<lparr>fpos := q'\<rparr>) = db\<lparr>fpos := q\<rparr>" for q q'
    by (simp add: fseek_def ftell_def)
  show ?thesis
  proof (cases "length (content db) < pos + 2")
    case True
    then have "length (take 2 (drop pos (content db))) \<noteq> 2" by auto
    with True show ?thesis
      by (simp add: LoadDB_record_def Let_def seek fread_at offsetof_text_def pos_def [symmetric])
  next
    case False
    then have item: "take 2 (drop pos (content db)) = [content db ! pos, content db ! (pos + 1)]"
      by (simp add: take_2_drop)
    show ?thesis
    proof (cases "0 \<in> set payload")
      case nul: True
      have rd: "take (Suc (length (cstr payload))) payload = cstr payload @ [0]"
        using nul by (rule take_Suc_cstr)
      have len: "min (length (content db) - Suc (Suc pos)) (Suc (length (cstr payload))) =
                 Suc (length (cstr payload))"
        using nul length_cstr_less [of payload] by (simp add: payload_def)
      show ?thesis
        using False nul len
        by (simp add: LoadDB_record_def Let_def seek fread_at offsetof_text_def item count_text_eq
            tell pos_def [symmetric] payload_def [symmetric] rd cstr_append_zero cstr_no_zero)
    next
      case nonul: False
      then have c: "cstr payload = payload" by (simp add: cstr_id)
      have len: "min (length (content db) - Suc (Suc pos)) (Suc (length payload)) \<noteq>
                 Suc (length payload)"
        by (simp add: payload_def)
      show ?thesis
        using False nonul len
        by (simp add: LoadDB_record_def Let_def seek fread_at offsetof_text_def item count_text_eq
            tell pos_def [symmetric] payload_def [symmetric] c)
    qed
  qed
qed

lemma MpExport_record_eq:
  "MpExport_record info db e out =
     (let pos = seek_pos db e;
          payload = drop (pos + offsetof_text) (content db);
          catnum = attributes e AND dmRecAttrCategoryMask;
          label = drop (offsetof_categoryLabels + dmCategoryLength * unat catnum) info
      in if length (content db) < pos + offsetof_text then Inl IOError
         else if 0 \<notin> set label then Inl Undefined
         else Inr (db\<lparr>fpos := pos + offsetof_text + length (cstr payload) +
                             (if 0 \<in> set payload then 1 else 0)\<rparr>,
                   out @
                   fprintf CategoryLine
                     [Str label, Num (if attributes e AND dmRecAttrSecret \<noteq> 0 then 1 else 0)] @
                   fprintf PlacesLine
                     [Num (uint (content db ! pos)), Num (uint (content db ! (pos + 1)))] @
                   cstr payload @ [0x0A] @ cstr SeparatorLine))"
proof -
  define pos where "pos = seek_pos db e"
  define payload where "payload = drop (Suc (Suc pos)) (content db)"
  have seek: "fseek (long_of_DWord (SwapDWord (localChunkID e))) db = db\<lparr>fpos := pos\<rparr>"
    by (simp add: fseek_def pos_def seek_pos_def Let_def)
  show ?thesis
  proof (cases "length (content db) < pos + 2")
    case True
    then have "length (take 2 (drop pos (content db))) \<noteq> 2" by auto
    with True show ?thesis
      by (simp add: MpExport_record_def Let_def seek fread_at offsetof_text_def pos_def [symmetric])
  next
    case False
    then have item: "take 2 (drop pos (content db)) = [content db ! pos, content db ! (pos + 1)]"
      by (simp add: take_2_drop)
    show ?thesis
      using False
      by (simp add: MpExport_record_def Let_def seek fread_at offsetof_text_def item copy_text_eq
          pos_def [symmetric] payload_def [symmetric])
  qed
qed

lemma long_of_DWord_small: "unat d < 2 ^ 31 \<Longrightarrow> long_of_DWord d = int (unat d)"
proof -
  assume "unat d < 2 ^ 31"
  then have "int (unat d) < int (2 ^ 31)" by (simp only: of_nat_less_iff)
  then have "uint d < 2 ^ 31" by simp
  moreover have "- (2 ^ 31) \<le> uint d"
    by (rule order_trans [of _ 0]) simp_all
  ultimately have "signed_take_bit 31 (uint d) = uint d"
    by (rule signed_take_bit_int_eq_self [rotated])
  then show ?thesis
    by (simp add: long_of_DWord_def sint_uint)
qed

lemma seek_pos_entry:
  assumes "length mem = sizeof_RecordEntryType" and "be32 (take 4 mem) < 2 ^ 31"
  shows "seek_pos db (load_RecordEntryType mem) = be32 (take 4 mem)"
proof -
  have "unat (SwapDWord (load_DWord (take 4 mem))) = be32 (take 4 mem)"
    using assms(1) by (simp add: unat_SwapDWord_load sizeof_RecordEntryType_def)
  with assms(2) show ?thesis
    by (simp add: seek_pos_def load_RecordEntryType_def field_def long_of_DWord_small Let_def)
qed

lemma example_entry0: "field 78 8 example_db = [0, 0, 1, 0x94, 0x11, 0, 0, 1]"
  by code_simp

lemma example_offset0: "be32 (take 4 (field 78 8 example_db)) = 404"
  unfolding example_entry0 by (simp add: be32_def)

lemma example_payload0:
  "drop 406 example_db =
     bytes ''Foo'' @ [0x0A] @ bytes ''bar'' @ [0, 2, 0] @ bytes ''Baz'' @ [0]"
  by code_simp

lemma example_item0: "example_db ! 404 = 14" "example_db ! 405 = 1"
  by code_simp+

lemma length_example_db: "length example_db = 420"
  by code_simp

section \<open>Facts about the database writer\<close>

lemma length_store_RecordEntryType:
  "length (uniqueID e) = 3 \<Longrightarrow> length (store_RecordEntryType e) = sizeof_RecordEntryType"
  by (simp add: store_RecordEntryType_def length_store_DWord sizeof_RecordEntryType_def)

lemma length_entry_bytes: "length (entry_bytes pos r) = 8"
  by (simp add: entry_bytes_def store_RecordEntryType_def length_store_DWord)

lemma length_entries_bytes: "length (entries_bytes pos rs) = 8 * length rs"
  by (induction rs arbitrary: pos) (simp_all add: length_entry_bytes)

lemma fwrite_end:
  "fpos db = length (content db) \<Longrightarrow>
   fwrite data db = \<lparr>content = content db @ data, fpos = length (content db) + length data\<rparr>"
  by (simp add: fwrite_def)

lemma fwrite_end':
  "fwrite data \<lparr>content = c, fpos = length c\<rparr> = \<lparr>content = c @ data, fpos = length (c @ data)\<rparr>"
  by (simp add: fwrite_def)

lemma SaveDB_records_eq:
  assumes "k + 8 * length rs \<le> length entries"
  shows "SaveDB_records rs k entries \<lparr>content = c, fpos = length c\<rparr> =
     Inr (take k entries @ entries_bytes (length c) rs @ drop (k + 8 * length rs) entries,
          \<lparr>content = c @ concat (map rec_bytes rs),
           fpos = length (c @ concat (map rec_bytes rs))\<rparr>)"
  using assms
proof (induction rs arbitrary: k entries c)
  case Nil
  then show ?case by simp
next
  case (Cons r rs)
  let ?entries = "take k entries @ entry_bytes (length c) r @ drop (k + 8) entries"
  let ?c = "c @ rec_bytes r"
  have len: "length ?entries = length entries"
    using Cons.prems by (simp add: length_entry_bytes)
  have k8: "k + 8 + 8 * length rs \<le> length ?entries"
    using Cons.prems len by simp
  have w: "fwrite (cstr (rtext r) @ [0]) (fwrite [places r, stripzeros r] \<lparr>content = c, fpos = length c\<rparr>) =
           \<lparr>content = ?c, fpos = length ?c\<rparr>"
    by (simp add: fwrite_def rec_bytes_def)
  have t: "take (k + 8) ?entries = take k entries @ entry_bytes (length c) r"
    using Cons.prems by (simp add: length_entry_bytes)
  have d: "drop (k + 8 + 8 * length rs) ?entries = drop (k + 8 * length (r # rs)) entries"
    using Cons.prems by (simp add: length_entry_bytes ac_simps)
  have step: "SaveDB_records (r # rs) k entries \<lparr>content = c, fpos = length c\<rparr> =
        SaveDB_records rs (k + 8) ?entries \<lparr>content = ?c, fpos = length ?c\<rparr>"
    using Cons.prems
    by (simp add: Let_def sizeof_RecordEntryType_def w entry_bytes_def rec_attributes_def ftell_def
        del: append_assoc)
  show ?case
    unfolding step Cons.IH [OF k8] t d by simp
qed

lemma SaveDB_records_overrun:
  assumes "length entries < k + 8 * length rs" and "k \<le> length entries"
  shows "SaveDB_records rs k entries db = Inl Undefined"
  using assms
proof (induction rs arbitrary: k entries db)
  case Nil
  then show ?case by simp
next
  case (Cons r rs)
  show ?case
  proof (cases "length entries < k + 8")
    case True
    then show ?thesis by (simp add: sizeof_RecordEntryType_def)
  next
    case False
    let ?e = "\<lparr>localChunkID = SwapDWord (DWord_of_long (ftell db)),
               attributes = (if secret r \<noteq> 0 then catnum r OR dmRecAttrSecret else catnum r),
               uniqueID = [0, 0, 0]\<rparr>"
    let ?entries = "take k entries @ store_RecordEntryType ?e @ drop (k + 8) entries"
    have len: "length ?entries = length entries"
      using False by (simp add: store_RecordEntryType_def length_store_DWord)
    have "SaveDB_records rs (k + 8) ?entries
            (fwrite (cstr (rtext r) @ [0]) (fwrite [places r, stripzeros r] db)) = Inl Undefined"
      by (rule Cons.IH) (use Cons.prems False len in simp_all)
    with False show ?thesis
      by (simp add: Let_def sizeof_RecordEntryType_def)
  qed
qed

lemma length_store_DatabaseHdrType:
  "length (store_DatabaseHdrType h) = length (name h) + 40"
  by (simp add: store_DatabaseHdrType_def length_store_Word length_store_DWord)

lemma length_store_RecordListType: "length (store_RecordListType l) = 6"
  by (simp add: store_RecordListType_def length_store_Word length_store_DWord)

lemma SaveDB_records_end:
  assumes "fpos db = length (content db)" and "k + 8 * length rs \<le> length entries"
  shows "SaveDB_records rs k entries db =
     Inr (take k entries @ entries_bytes (length (content db)) rs @ drop (k + 8 * length rs) entries,
          \<lparr>content = content db @ concat (map rec_bytes rs),
           fpos = length (content db) + length (concat (map rec_bytes rs))\<rparr>)"
proof -
  have "db = \<lparr>content = content db, fpos = length (content db)\<rparr>"
    using assms(1) by simp
  then show ?thesis
    using SaveDB_records_eq [OF assms(2), of "content db"] by simp
qed

lemma fwrite_over:
  "fpos db + length data \<le> length (content db) \<Longrightarrow>
   fwrite data db =
     \<lparr>content = take (fpos db) (content db) @ data @ drop (fpos db + length data) (content db),
      fpos = fpos db + length data\<rparr>"
  by (simp add: fwrite_def)

lemma SaveDB_eq:
  assumes n: "unat (NumRecords g) = length (RecordList g)"
    and hdr: "length (name (Hdr g)) = 32"
  shows "SaveDB now heap \<lparr>content = [], fpos = 0\<rparr> g =
     (let hdr' = (Hdr g)\<lparr>appInfoID := SwapDWord (DWord_of_long (int (78 + 8 * length (RecordList g)))),
                          creationDate := SwapDWord now, modificationDate := SwapDWord now,
                          lastBackupDate := SwapDWord now\<rparr>
      in Inr (\<lparr>content =
                 store_DatabaseHdrType hdr' @
                 store_RecordListType \<lparr>nextRecordListID = 0, numRecords = SwapWord (NumRecords g)\<rparr> @
                 entries_bytes (record_pos g 0) (RecordList g) @
                 store_MathPadAppInfoType (MpInfo g) @
                 concat (map rec_bytes (RecordList g)),
               fpos = 78 + 8 * length (RecordList g)\<rparr>,
              g\<lparr>Hdr := hdr'\<rparr>))"
proof -
  have lH: "length (store_DatabaseHdrType (Hdr g\<lparr>appInfoID := a, creationDate := b,
       modificationDate := c, lastBackupDate := d\<rparr>)) = 72" for a b c d
    by (simp add: length_store_DatabaseHdrType hdr)
  have lH0: "length (store_DatabaseHdrType (Hdr g)) = 72"
    by (simp add: length_store_DatabaseHdrType hdr)
  show ?thesis
    by (simp add: SaveDB_def Let_def fwrite_end ftell_def fseek_def n sizeof_RecordEntryType_def
        lH lH0 length_store_RecordListType SaveDB_records_end length_entries_bytes fwrite_over
        record_pos_def offsetof_recordList_def offsetof_firstEntry_def mult.commute [of _ 8]
        add.assoc)
qed

lemma entries_bytes_nth:
  "i < length rs \<Longrightarrow>
   take 8 (drop (8 * i) (entries_bytes p rs @ rest)) =
     entry_bytes (p + length (concat (map rec_bytes (take i rs)))) (rs ! i)"
proof (induction rs arbitrary: i p)
  case Nil
  then show ?case by simp
next
  case (Cons r rs)
  show ?case
  proof (cases i)
    case 0
    then show ?thesis by (simp add: length_entry_bytes)
  next
    case (Suc j)
    with Cons.prems have j: "j < length rs" by simp
    have "drop (8 * i) (entries_bytes p (r # rs) @ rest) =
          drop (8 * j) (entries_bytes (p + length (rec_bytes r)) rs @ rest)"
      using Suc by (simp add: length_entry_bytes)
    with Cons.IH [OF j, of "p + length (rec_bytes r)"] Suc show ?thesis
      by (simp add: add.assoc)
  qed
qed

lemma rec_bytes_nth:
  "i < length rs \<Longrightarrow>
   take (length (rec_bytes (rs ! i)))
     (drop (length (concat (map rec_bytes (take i rs)))) (concat (map rec_bytes rs))) =
   rec_bytes (rs ! i)"
proof -
  assume i: "i < length rs"
  have "concat (map rec_bytes rs) =
        concat (map rec_bytes (take i rs)) @ rec_bytes (rs ! i) @ concat (map rec_bytes (drop (Suc i) rs))"
    using id_take_nth_drop [OF i] by (metis concat.simps(2) concat_append list.simps(9) map_append)
  then show ?thesis by simp
qed

lemma store_DWord_0: "store_DWord 0 = [0, 0, 0, 0]"
  by (simp add: store_DWord_def store_Word_def word_at_def byte_at_def)

lemma be16_store: "be16 (store_Word (SwapWord w)) = unat w"
  using unat_SwapWord_load [of "store_Word (SwapWord w)"]
  by (simp add: length_store_Word load_store_Word SwapWord_twice)

lemma be32_store: "be32 (store_DWord (SwapDWord d)) = unat d"
  using unat_SwapDWord_load [of "store_DWord (SwapDWord d)"]
  by (simp add: length_store_DWord load_store_DWord SwapDWord_twice)

lemma entry_bytes_fields:
  "be32 (take 4 (entry_bytes pos r)) = pos mod 2 ^ 32"
  "entry_bytes pos r ! 4 = rec_attributes r"
  "drop 5 (entry_bytes pos r) = [0, 0, 0]"
proof -
  have "unat (DWord_of_long (int pos)) = pos mod 2 ^ 32"
    by (simp add: DWord_of_long_def unat_of_nat)
  then show "be32 (take 4 (entry_bytes pos r)) = pos mod 2 ^ 32"
    by (simp add: entry_bytes_def store_RecordEntryType_def length_store_DWord be32_store)
  show "entry_bytes pos r ! 4 = rec_attributes r"
    by (simp add: entry_bytes_def store_RecordEntryType_def nth_append length_store_DWord)
  show "drop 5 (entry_bytes pos r) = [0, 0, 0]"
    by (simp add: entry_bytes_def store_RecordEntryType_def length_store_DWord)
qed

lemma AddRecord_funpow:
  "RecordList ((AddRecord r ^^ n) g) = RecordList g @ replicate n r \<and>
   NumRecords ((AddRecord r ^^ n) g) = NumRecords g + of_nat n"
proof (induction n)
  case 0
  then show ?case by simp
next
  case (Suc n)
  then show ?case
    by (simp add: AddRecord_def replicate_append_same)
qed

lemma length_bytes: "length (bytes s) = length s"
  by (simp add: bytes_def)

lemma example_record_pos:
  "record_pos example_globals 0 = 404" "record_pos example_globals (Suc 0) = 414"
  by code_simp+

text \<open>
  The file \<open>SaveDB\<close> writes for a record store of fewer than 65536 records, with
  \<open>NumRecords\<close> the length of the list and a header whose name has its 32 bytes.
  \<open>SaveDB\<close> returns, and the file it has written is: the header, one record
  list header, the entries, the category table, the records. The next-list offset (at
  72) is 0 and the entry count (at 76) is the number of records. For each record \<open>i\<close>,
  the offset field of entry \<open>i\<close> (at \<open>78 + 8 * i\<close>), most significant byte first, is
  the position \<open>record_pos g i\<close> (modulo \<open>2^32\<close>, the width of the field, should the
  file grow that long), the file holds the record at that
  position, the attribute byte is the category index with the secret bit or-ed in,
  and the three bytes of the unique id are zero.
\<close>

lemma SaveDB_layout:
  assumes inv: "NumRecords g = of_nat (length (RecordList g))"
    and small: "length (RecordList g) < 65536"
    and hdr: "length (name (Hdr g)) = 32"
  shows "\<exists>db' g'. SaveDB now heap \<lparr>content = [], fpos = 0\<rparr> g = Inr (db', g') \<and>
     (let out = content db'; n = length (RecordList g)
      in out = store_DatabaseHdrType (Hdr g') @
               store_RecordListType \<lparr>nextRecordListID = 0, numRecords = SwapWord (NumRecords g)\<rparr> @
               entries_bytes (record_pos g 0) (RecordList g) @
               store_MathPadAppInfoType (MpInfo g) @
               concat (map rec_bytes (RecordList g)) \<and>
         field 72 4 out = [0, 0, 0, 0] \<and>
         be16 (field 76 2 out) = n \<and>
         (\<forall>i < n.
            let e = field (78 + 8 * i) 8 out; r = RecordList g ! i
            in be32 (take 4 e) = record_pos g i mod 2 ^ 32 \<and>
               field (record_pos g i) (length (rec_bytes r)) out = rec_bytes r \<and>
               e ! 4 = rec_attributes r \<and>
               drop 5 e = [0, 0, 0]))"
proof -
  define rs where "rs = RecordList g"
  define hdr' where "hdr' = (Hdr g)\<lparr>appInfoID := SwapDWord (DWord_of_long (int (78 + 8 * length rs))),
                          creationDate := SwapDWord now, modificationDate := SwapDWord now,
                          lastBackupDate := SwapDWord now\<rparr>"
  define H where "H = store_DatabaseHdrType hdr'"
  define L where "L = store_RecordListType \<lparr>nextRecordListID = 0, numRecords = SwapWord (NumRecords g)\<rparr>"
  define E where "E = entries_bytes (record_pos g 0) rs"
  define A where "A = store_MathPadAppInfoType (MpInfo g)"
  define R where "R = concat (map rec_bytes rs)"
  define out where "out = H @ L @ E @ A @ R"
  have n: "unat (NumRecords g) = length rs"
    using small by (simp add: inv rs_def unat_of_nat)
  have save: "SaveDB now heap \<lparr>content = [], fpos = 0\<rparr> g =
     Inr (\<lparr>content = out, fpos = 78 + 8 * length rs\<rparr>, g\<lparr>Hdr := hdr'\<rparr>)"
    using SaveDB_eq [OF n [unfolded rs_def] hdr, of now heap]
    by (simp add: Let_def out_def H_def L_def E_def A_def R_def hdr'_def rs_def)
  have lH: "length H = 72" by (simp add: H_def hdr'_def length_store_DatabaseHdrType hdr)
  have lL: "length L = 6" by (simp add: L_def length_store_RecordListType)
  have lE: "length E = 8 * length rs" by (simp add: E_def length_entries_bytes)
  have next0: "field 72 4 out = [0, 0, 0, 0]"
    by (simp add: out_def field_def lH L_def store_RecordListType_def store_DWord_0)
  have count: "be16 (field 76 2 out) = length rs"
    by (simp add: out_def field_def lH L_def store_RecordListType_def length_store_DWord
        length_store_Word be16_store n)
  have rp: "record_pos g i = 78 + 8 * length rs + length A + length (concat (map rec_bytes (take i rs)))" for i
    by (simp add: record_pos_def rs_def A_def offsetof_recordList_def offsetof_firstEntry_def
        sizeof_RecordEntryType_def)
  have entry: "field (78 + 8 * i) 8 out = entry_bytes (record_pos g i) (rs ! i)" if "i < length rs" for i
  proof -
    have "field (78 + 8 * i) 8 out = take 8 (drop (8 * i) (E @ A @ R))"
      by (simp add: out_def field_def lH lL)
    also have "\<dots> = entry_bytes (record_pos g 0 + length (concat (map rec_bytes (take i rs)))) (rs ! i)"
      unfolding E_def using that by (rule entries_bytes_nth)
    finally show ?thesis by (simp add: rp)
  qed
  have body: "field (record_pos g i) (length (rec_bytes (rs ! i))) out = rec_bytes (rs ! i)"
    if "i < length rs" for i
  proof -
    have "drop (record_pos g i) out = drop (length (concat (map rec_bytes (take i rs)))) R"
      by (simp add: out_def rp lH lL lE)
    then show ?thesis
      using rec_bytes_nth [OF that] by (simp add: field_def R_def)
  qed
  show ?thesis
    unfolding save
    by (simp add: Let_def next0 count entry body entry_bytes_fields rs_def [symmetric])
       (simp add: out_def H_def L_def E_def A_def R_def)
qed

lemma SaveDB_layout_example:
  "\<exists>db' g'. SaveDB 7 (\<lambda>i. 0xEE) \<lparr>content = [], fpos = 0\<rparr> example_globals = Inr (db', g') \<and>
     field 72 4 (content db') = [0, 0, 0, 0] \<and>
     be16 (field 76 2 (content db')) = 2 \<and>
     be32 (take 4 (field 78 8 (content db'))) = 404 \<and>
     field 78 8 (content db') ! 4 = 0x11 \<and>
     drop 5 (field 78 8 (content db')) = [0, 0, 0] \<and>
     field 404 10 (content db') = [14, 1] @ bytes ''Foo'' @ [0x0A] @ bytes ''bar'' @ [0] \<and>
     be32 (take 4 (field 86 8 (content db'))) = 414"
proof -
  have inv: "NumRecords example_globals = of_nat (length (RecordList example_globals))"
    by (simp add: example_globals_def)
  have small: "length (RecordList example_globals) < 65536"
    by (simp add: example_globals_def)
  have hdr: "length (name (Hdr example_globals)) = 32"
    by (simp add: example_globals_def load_DatabaseHdrType_def field_def example_hdr_def bytes_def)
  have n: "length (RecordList example_globals) = 2" by (simp add: example_globals_def)
  have r0: "RecordList example_globals ! 0 =
      \<lparr>catnum = 1, places = 14, secret = 1, stripzeros = 1, rtext = bytes ''Foo'' @ [0x0A] @ bytes ''bar''\<rparr>"
    by (simp add: example_globals_def)
  from SaveDB_layout [OF inv small hdr, of 7 "\<lambda>i. 0xEE"]
  obtain db' g' where s: "SaveDB 7 (\<lambda>i. 0xEE) \<lparr>content = [], fpos = 0\<rparr> example_globals = Inr (db', g')"
    and f: "field 72 4 (content db') = [0, 0, 0, 0]" "be16 (field 76 2 (content db')) = 2"
    and e: "\<forall>i < 2.
            let e = field (78 + 8 * i) 8 (content db'); r = RecordList example_globals ! i
            in be32 (take 4 e) = record_pos example_globals i mod 2 ^ 32 \<and>
               field (record_pos example_globals i) (length (rec_bytes r)) (content db') = rec_bytes r \<and>
               e ! 4 = rec_attributes r \<and>
               drop 5 e = [0, 0, 0]"
    unfolding n Let_def by blast
  have ten: "Suc (Suc (Suc (Suc (Suc (Suc (Suc (Suc (Suc (Suc 0))))))))) = 10" by simp
  from e have e0: "be32 (take 4 (field 78 8 (content db'))) = 404"
      "field 78 8 (content db') ! 4 = 0x11" "drop 5 (field 78 8 (content db')) = [0, 0, 0]"
      "field 404 10 (content db') = [14, 1] @ bytes ''Foo'' @ [0x0A] @ bytes ''bar'' @ [0]"
    and e1: "be32 (take 4 (field 86 8 (content db'))) = 414"
    by (simp_all add: Let_def example_record_pos r0 rec_bytes_def rec_attributes_def cstr_def
        bytes_def dmRecAttrSecret_def all_less_list_all [of 2] upt_conv_Cons ten)
  from s f e0 e1 show ?thesis by blast
qed

section \<open>Facts about exporting and importing again\<close>

subsection \<open>Strings and numerals\<close>

lemma cstr_Nil: "cstr [] = []"
  by (simp add: cstr_def)

lemma cstr_Cons: "cstr (c # p) = (if c = 0 then [] else c # cstr p)"
  by (simp add: cstr_def)

lemma strcmp_eq_0_iff: "strcmp s1 s2 = 0 \<longleftrightarrow> cstr s1 = cstr s2"
proof (induction s1 s2 rule: strcmp.induct)
  case (1 s2)
  then show ?case by (cases s2) (auto simp: cstr_Nil cstr_Cons)
next
  case (2 c1 s1 s2)
  then show ?case by (cases s2) (auto simp: cstr_Nil cstr_Cons)
qed

lemma strncmp_eq_0_iff: "strncmp s1 s2 n = 0 \<longleftrightarrow> take n (cstr s1) = take n (cstr s2)"
proof (induction s1 s2 n rule: strncmp.induct)
  case (1 s1 s2)
  then show ?case by simp
next
  case (2 s1 s2 n)
  then show ?case
    by (cases s1; cases s2) (auto simp: cstr_Nil cstr_Cons)
qed

lemma digit_word:
  assumes "n < 10"
  shows "isdigit (48 + of_nat n)" and "uint (of_nat n :: Byte) = int n"
proof -
  have "unat (of_nat (48 + n) :: Byte) = 48 + n"
    unfolding unat_of_nat using assms by simp
  then have u: "unat (48 + of_nat n :: Byte) = 48 + n" by simp
  have l: "(0x30 :: Byte) \<le> 48 + of_nat n"
    using u by (simp add: word_le_nat_alt)
  have h: "(48 + of_nat n :: Byte) \<le> 0x39"
    using u assms by (simp add: word_le_nat_alt)
  from l h show "isdigit (48 + of_nat n)" by (simp add: isdigit_def)
  have "unat (of_nat n :: Byte) = n"
    unfolding unat_of_nat using assms by simp
  then show "uint (of_nat n :: Byte) = int n"
    by (metis of_nat_unat)
qed

lemma atoi_digits_dec:
  "atoi_digits acc (dec n @ rest) = atoi_digits (acc * 10 ^ length (dec n) + int n) rest"
proof (induction n arbitrary: acc rest rule: dec.induct)
  case (1 n)
  show ?case
  proof (cases "n < 10")
    case True
    then show ?thesis
      by (simp add: dec.simps [of n] digit_word mult.commute)
  next
    case False
    have m: "n mod 10 < 10" by simp
    have "atoi_digits acc (dec n @ rest) =
          atoi_digits acc (dec (n div 10) @ (of_nat (48 + n mod 10) # rest))"
      using False by (simp add: dec.simps [of n])
    also have "\<dots> = atoi_digits (acc * 10 ^ length (dec (n div 10)) + int (n div 10))
                        (of_nat (48 + n mod 10) # rest)"
      using False by (simp add: "1.IH")
    also have "\<dots> = atoi_digits (10 * (acc * 10 ^ length (dec (n div 10)) + int (n div 10)) + int (n mod 10)) rest"
      using digit_word [OF m] by (simp del: of_nat_mod)
    also have "10 * (acc * 10 ^ length (dec (n div 10)) + int (n div 10)) + int (n mod 10) =
               acc * 10 ^ length (dec n) + int n"
      using False by (simp add: dec.simps [of n] algebra_simps zdiv_int zmod_int)
    finally show ?thesis .
  qed
qed

lemma atoi_dec:
  assumes nd: "\<not> isdigit (deref rest)" and fit: "int n \<le> INT_MAX"
  shows "atoi (0x20 # dec n @ rest) = int n"
proof -
  have d: "set (dec n) \<subseteq> {c. isdigit c}"
  proof (induction n rule: dec.induct)
    case (1 n)
    show ?case
    proof (cases "n < 10")
      case True
      then show ?thesis by (simp add: dec.simps [of n] digit_word)
    next
      case False
      with 1 show ?thesis by (simp add: dec.simps [of n] digit_word)
    qed
  qed
  have ne: "dec n \<noteq> []" by (simp add: dec.simps [of n])
  then obtain c cs where c: "dec n = c # cs" by (cases "dec n") auto
  with d have dc: "isdigit c" by auto
  then have ns: "\<not> isspace c" "c \<noteq> 0x2D" "c \<noteq> 0x2B"
    by (auto simp: isdigit_def isspace_def word_le_nat_alt)
  have fin: "atoi_digits a rest = a" for a
    using nd by (cases rest) (auto simp: isdigit_def)
  have sp: "isspace 0x20" by (simp add: isspace_def)
  have dw: "dropWhile isspace (0x20 # dec n @ rest) = dec n @ rest"
    using sp ns(1) by (simp add: c)
  have df: "deref (dec n @ rest) = c" by (simp add: c)
  have "atoi_digits 0 (dec n @ rest) = int n"
    by (simp add: atoi_digits_dec fin)
  then show ?thesis
    unfolding atoi_def dw Let_def df using ns fit by (simp add: INT_MIN_def)
qed

lemma atoi_dec_byte:
  assumes "\<not> isdigit (deref rest)"
  shows "atoi (0x20 # dec (unat (b :: Byte)) @ rest) = int (unat b)"
proof -
  have "uint b < 256" using unsigned_less [of b, where ?'a = int] by simp
  then have "int (unat b) \<le> INT_MAX" by (simp add: INT_MAX_def)
  with assms show ?thesis by (rule atoi_dec)
qed

lemma dec_digits: "c \<in> set (dec n) \<Longrightarrow> isdigit c"
proof (induction n rule: dec.induct)
  case (1 n)
  show ?case
  proof (cases "n < 10")
    case True
    with 1 show ?thesis by (simp add: dec.simps [of n] digit_word)
  next
    case False
    have "n mod 10 < 10" by simp
    then have "isdigit (48 + of_nat (n mod 10))" by (rule digit_word)
    with False 1 show ?thesis by (auto simp add: dec.simps [of n] simp del: of_nat_mod)
  qed
qed

lemma isdigit_not:
  "isdigit c \<Longrightarrow> c \<noteq> 0 \<and> c \<noteq> 0x0A \<and> c \<noteq> 0x0D \<and> c \<noteq> 0x3D \<and> c \<noteq> 0x22"
  by (auto simp: isdigit_def word_le_nat_alt)

lemma length_dec: "n < 10 ^ k \<Longrightarrow> 0 < k \<Longrightarrow> length (dec n) \<le> k"
proof (induction k arbitrary: n)
  case 0
  then show ?case by simp
next
  case (Suc k)
  show ?case
  proof (cases "n < 10")
    case True
    then show ?thesis by (simp add: dec.simps [of n])
  next
    case False
    then have k: "0 < k" using Suc.prems by (cases k) auto
    have "n div 10 < 10 ^ k" using Suc.prems by (simp add: less_mult_imp_div_less mult.commute)
    from Suc.IH [OF this k] False show ?thesis by (simp add: dec.simps [of n])
  qed
qed

lemma length_dec_byte: "length (dec (unat (b :: Byte))) \<le> 3"
proof -
  have "unat b < 256" using unsigned_less [of b, where ?'a = nat] by simp
  then have "unat b < 10 ^ 3" by simp
  then show ?thesis by (rule length_dec) simp
qed

lemma byte_le_1: "(s :: Byte) \<le> 1 \<Longrightarrow> s = 0 \<or> s = 1"
proof -
  assume "s \<le> 1"
  then have "unat s \<le> 1" by (simp add: word_le_nat_alt)
  then have "unat s = unat (0 :: Byte) \<or> unat s = unat (1 :: Byte)" by auto
  then show ?thesis by (simp only: word_unat_eq_iff [symmetric])
qed

lemma cstr_take: "0 \<in> set (take n p) \<Longrightarrow> cstr (take n p) = cstr p"
proof (induction p arbitrary: n)
  case Nil
  then show ?case by simp
next
  case (Cons c p)
  then show ?case by (cases n) (auto simp: cstr_Cons)
qed

subsection \<open>Reading the lines MpExport writes\<close>

lemma text_lines_nonempty: "text_lines t \<noteq> []"
  by (induction t) auto

lemma text_lines_concat: "concat (map (\<lambda>l. l @ [PilotEOL]) (text_lines t)) = t @ [PilotEOL]"
proof (induction t)
  case Nil
  then show ?case by simp
next
  case (Cons c t)
  obtain l ls where l: "text_lines t = l # ls"
    using text_lines_nonempty [of t] by (cases "text_lines t") auto
  with Cons show ?case by auto
qed

lemma text_lines_set: "l \<in> set (text_lines t) \<Longrightarrow> set l \<subseteq> set t - {PilotEOL}"
proof (induction t arbitrary: l)
  case Nil
  then show ?case by simp
next
  case (Cons c t)
  obtain l' ls where l: "text_lines t = l' # ls"
    using text_lines_nonempty [of t] by (cases "text_lines t") auto
  have a: "set l' \<subseteq> set t - {PilotEOL}" using Cons.IH [of l'] l by simp
  have b: "\<And>x. x \<in> set ls \<Longrightarrow> set x \<subseteq> set t - {PilotEOL}" using Cons.IH l by simp
  show ?case
  proof (cases "c = PilotEOL")
    case True
    with Cons.prems Cons.IH show ?thesis by (auto split: if_splits)
  next
    case False
    with Cons.prems l a b show ?thesis by (auto split: if_splits)
  qed
qed

lemma fgets_chars_line:
  "0x0A \<notin> set l \<Longrightarrow> length l < n \<Longrightarrow> fgets_chars n (l @ 0x0A # rest) = l @ [0x0A]"
proof (induction l arbitrary: n)
  case Nil
  then show ?case by (cases n) auto
next
  case (Cons c l)
  then show ?case by (cases n) auto
qed

lemma fgets_line:
  "0x0A \<notin> set l \<Longrightarrow> length l + 1 < sz \<Longrightarrow> fgets sz (l @ 0x0A # rest) = Some (l @ [0x0A], rest)"
  by (simp add: fgets_def fgets_chars_line Let_def)

lemma takeWhile_line:
  "\<forall>c \<in> set l. P c \<Longrightarrow> \<not> P x \<Longrightarrow> takeWhile P (l @ x # r) = l"
  by (induction l) auto

lemma ReadLine_line:
  assumes clean: "0 \<notin> set l" "0x0A \<notin> set l" "0x0D \<notin> set l"
    and len: "length l + 1 < 256"
    and sep: "strncmp (l @ [0x0A]) SeparatorLine SepTestLength \<noteq> 0"
  shows "ReadLine buff 256 (l @ 0x0A # rest) = Inr (int (length l + 1), l @ [PilotEOL], rest)"
proof -
  have f: "fgets 256 (l @ 0x0A # rest) = Some (l @ [0x0A], rest)"
    using clean(2) len by (rule fgets_line)
  have t: "takeWhile (\<lambda>c. c \<noteq> 0 \<and> c \<noteq> 0x0A \<and> c \<noteq> 0x0D) (l @ [0x0A]) = l"
    using clean by (intro takeWhile_line) auto
  show ?thesis
    using sep len by (simp add: ReadLine_def f t Let_def)
qed

lemma SeparatorLine_tildes: "take SepTestLength (cstr SeparatorLine) = replicate 27 0x7E"
  by code_simp

lemma SeparatorLine_tildes': "take SepTestLength SeparatorLine = replicate 27 0x7E"
  by code_simp

lemma cstr_SeparatorLine: "cstr SeparatorLine = replicate 27 0x7E @ [0x0A]"
  by code_simp

lemma ReadLine_separator:
  "ReadLine buff 256 (cstr SeparatorLine @ rest) = Inr (0, cstr SeparatorLine, rest)"
proof -
  note c = cstr_SeparatorLine
  have f: "fgets 256 (replicate 27 0x7E @ 0x0A # rest) = Some (replicate 27 0x7E @ [0x0A], rest)"
    by (rule fgets_line) auto
  have s: "strncmp (cstr SeparatorLine) SeparatorLine SepTestLength = 0"
    by (simp add: strncmp_eq_0_iff cstr_idem)
  show ?thesis
    using s f by (simp add: ReadLine_def c)
qed

lemma ReadLine_text_line:
  assumes "line_ok l" "0 \<notin> set l" "PilotEOL \<notin> set l"
  shows "ReadLine buff 256 (l @ PilotEOL # rest) = Inr (int (length l + 1), l @ [PilotEOL], rest)"
proof -
  have n: "0x0A \<notin> set l" using assms(3) by (simp add: PilotEOL_def)
  have c: "cstr (l @ [0x0A]) = l @ [0x0A]" using assms(2) by (simp add: cstr_id)
  have "take SepTestLength (l @ [0x0A]) \<noteq> replicate 27 0x7E"
  proof
    assume e: "take SepTestLength (l @ [0x0A]) = replicate 27 0x7E"
    show False
    proof (cases "length l < 27")
      case True
      then have "take SepTestLength (l @ [0x0A]) = l @ [0x0A]" by (simp add: SepTestLength_def)
      with e have "0x0A \<in> set (replicate 27 (0x7E :: Byte))" by (metis in_set_conv_decomp)
      then show False by simp
    next
      case False
      then have "take SepTestLength (l @ [0x0A]) = take SepTestLength l"
        by (simp add: SepTestLength_def)
      moreover note SeparatorLine_tildes'
      ultimately show False using e assms(1) by (simp add: line_ok_def)
    qed
  qed
  then have s: "strncmp (l @ [0x0A]) SeparatorLine SepTestLength \<noteq> 0"
    by (simp add: strncmp_eq_0_iff c SeparatorLine_tildes)
  have "ReadLine buff 256 (l @ 0x0A # rest) = Inr (int (length l + 1), l @ [PilotEOL], rest)"
    using assms(2) n _ _ s
  proof (rule ReadLine_line)
    show "0x0D \<notin> set l" using assms(1) by (simp add: line_ok_def)
    show "length l + 1 < 256" using assms(1) by (simp add: line_ok_def)
  qed
  then show ?thesis by (simp add: PilotEOL_def)
qed

lemma LoadImport_lines_text:
  assumes "\<forall>l \<in> set ls. line_ok l \<and> 0 \<notin> set l \<and> PilotEOL \<notin> set l"
  shows "LoadImport_lines acc buff (concat (map (\<lambda>l. l @ [PilotEOL]) ls) @ cstr SeparatorLine @ rest) =
         Inr (acc @ concat (map (\<lambda>l. l @ [PilotEOL]) ls), rest)"
  using assms
proof (induction ls arbitrary: acc buff)
  case Nil
  show ?case
    by (simp add: LoadImport_lines.simps [of acc buff] ReadLine_separator)
next
  case (Cons l ls)
  have r: "ReadLine buff 256 (l @ PilotEOL # concat (map (\<lambda>l. l @ [PilotEOL]) ls) @ cstr SeparatorLine @ rest) =
           Inr (int (length l + 1), l @ [PilotEOL], concat (map (\<lambda>l. l @ [PilotEOL]) ls) @ cstr SeparatorLine @ rest)"
    using Cons.prems by (intro ReadLine_text_line) auto
  have ih: "LoadImport_lines (acc @ l @ [PilotEOL]) (l @ [PilotEOL])
              (concat (map (\<lambda>l. l @ [PilotEOL]) ls) @ cstr SeparatorLine @ rest) =
            Inr ((acc @ l @ [PilotEOL]) @ concat (map (\<lambda>l. l @ [PilotEOL]) ls), rest)"
    using Cons.prems by (intro Cons.IH) auto
  show ?case
    using r ih
    by (simp add: LoadImport_lines.simps [of acc buff])
qed

lemma fprintf_CategoryLine:
  "fprintf CategoryLine [Str s, Num (uint d)] =
     bytes ''Category = '' @ [0x22] @ cstr s @ [0x22] @ bytes ''; Secret = '' @ dec (unat d) @ [0x0A]"
  by (simp add: CategoryLine_def bytes_def)

lemma fprintf_PlacesLine:
  "fprintf PlacesLine [Num (uint p), Num (uint z)] =
     bytes ''Places = '' @ dec (unat p) @ bytes ''; StripZeros = '' @ dec (unat z) @ [0x0A]"
  by (simp add: PlacesLine_def bytes_def)

lemma for_break_eq:
  assumes "c < k" "P c" "\<forall>j < c. \<not> P j"
  shows "for_break P k 0 = c"
proof -
  have l: "for_break P k 0 < 0 + k"
    using assms(1,2) by (subst for_break_less) auto
  have f: "P (for_break P k 0)" using l by (rule for_break_found)
  have "\<not> c < for_break P k 0"
    using for_break_first [of 0 c P k] assms(2) by auto
  moreover have "\<not> for_break P k 0 < c" using f assms(3) by auto
  ultimately show ?thesis by simp
qed

lemma strncmp_first: "deref s1 \<noteq> deref s2 \<Longrightarrow> 0 < n \<Longrightarrow> strncmp s1 s2 n \<noteq> 0"
  by (cases n) auto

lemma ReadLine_catline:
  fixes lab :: "Byte list" and s :: Byte
  defines "l1 \<equiv> bytes ''Category = '' @ [0x22] @ lab @ [0x22] @ bytes ''; Secret = '' @ dec (unat s)"
  assumes lab: "0 \<notin> set lab" "0x0A \<notin> set lab" "0x0D \<notin> set lab" "length lab < 16"
  shows "ReadLine buff 256 (l1 @ 0x0A # rest) = Inr (int (length l1 + 1), l1 @ [PilotEOL], rest)"
proof (rule ReadLine_line)
  have d: "\<And>c. c \<in> set (dec (unat s)) \<Longrightarrow> c \<noteq> 0 \<and> c \<noteq> 0x0A \<and> c \<noteq> 0x0D"
    using dec_digits isdigit_not by blast
  show "0 \<notin> set l1" using lab d by (auto simp: l1_def bytes_def)
  show "0x0A \<notin> set l1" using lab d by (auto simp: l1_def bytes_def)
  show "0x0D \<notin> set l1" using lab d by (auto simp: l1_def bytes_def)
  show "length l1 + 1 < 256"
    using lab(4) length_dec_byte [of s] by (simp add: l1_def length_bytes)
  show "strncmp (l1 @ [0x0A]) SeparatorLine SepTestLength \<noteq> 0"
    by (rule strncmp_first) (simp_all add: l1_def bytes_def SeparatorLine_def SepTestLength_def)
qed

lemma ReadLine_placesline:
  fixes p z :: Byte
  defines "l2 \<equiv> bytes ''Places = '' @ dec (unat p) @ bytes ''; StripZeros = '' @ dec (unat z)"
  shows "ReadLine buff 256 (l2 @ 0x0A # rest) = Inr (int (length l2 + 1), l2 @ [PilotEOL], rest)"
proof (rule ReadLine_line)
  have d: "\<And>c n. c \<in> set (dec n) \<Longrightarrow> c \<noteq> 0 \<and> c \<noteq> 0x0A \<and> c \<noteq> 0x0D"
    using dec_digits isdigit_not by blast
  show "0 \<notin> set l2" using d by (auto simp: l2_def bytes_def)
  show "0x0A \<notin> set l2" using d by (auto simp: l2_def bytes_def)
  show "0x0D \<notin> set l2" using d by (auto simp: l2_def bytes_def)
  show "length l2 + 1 < 256"
    using length_dec_byte [of p] length_dec_byte [of z] by (simp add: l2_def length_bytes)
  show "strncmp (l2 @ [0x0A]) SeparatorLine SepTestLength \<noteq> 0"
    by (rule strncmp_first) (simp_all add: l2_def bytes_def SeparatorLine_def SepTestLength_def)
qed

lemma not_digit_EOL: "\<not> isdigit (deref (PilotEOL # rest))"
  by (simp add: isdigit_def PilotEOL_def)

lemma not_digit_semi: "\<not> isdigit (deref (0x3B # rest))"
  by (simp add: isdigit_def)

lemma LoadImport_catline_export:
  fixes info :: MathPadAppInfoType and r :: Record
  defines "lab \<equiv> cstr (categoryLabels (appinfo info) ! unat (catnum r))"
  defines "l1 \<equiv> bytes ''Category = '' @ [0x22] @ lab @ [0x22] @ bytes ''; Secret = '' @ dec (unat (secret r))"
  assumes c: "unat (catnum r) < dmRecNumCategories"
    and len: "length lab < dmCategoryLength"
    and q: "0x22 \<notin> set lab"
    and first: "\<forall>i \<in> set [0 ..< unat (catnum r)]. cstr (categoryLabels (appinfo info) ! i) \<noteq> lab"
    and s: "secret r \<le> 1"
    and rd: "ReadLine (l1 @ [PilotEOL]) 256 fp = Inr (n2, b2, fp2)" "1 \<le> n2"
  shows "LoadImport_catline n (l1 @ [PilotEOL]) fp info =
         Inr (Some (catnum r, secret r, n2, b2), fp2, info)"
proof -
  have z: "0 \<notin> set lab" by (simp add: lab_def cstr_no_zero)
  define endq where "endq = 0x22 # bytes ''; Secret = '' @ dec (unat (secret r)) @ [PilotEOL]"
  have buff: "l1 @ [PilotEOL] = bytes ''Category = '' @ [0x22] @ lab @ [0x22] @ tl endq"
    by (simp add: l1_def endq_def)
  have test: "strncmp (l1 @ [PilotEOL]) CategoryLine CatTestLength = 0"
    unfolding buff by (rule CategoryLine_test)
  have name: "LoadImport_catname (l1 @ [PilotEOL]) = Inr (lab, endq)"
    using LoadImport_catname_line [OF q z, of "tl endq"] len
    unfolding buff by (simp add: endq_def dmCategoryLength_def)
  have fb: "for_break (\<lambda>i. strcmp (categoryLabels (appinfo info) ! i) lab = 0) dmRecNumCategories 0 =
            unat (catnum r)"
  proof (rule for_break_eq [OF c])
    show "strcmp (categoryLabels (appinfo info) ! unat (catnum r)) lab = 0"
      by (simp add: strcmp_eq_0_iff lab_def cstr_idem)
    show "\<forall>j<unat (catnum r). strcmp (categoryLabels (appinfo info) ! j) lab \<noteq> 0"
      using first z by (simp add: strcmp_eq_0_iff cstr_id)
  qed
  have num: "LoadImport_catnum lab info = (catnum r, info)"
    using LoadImport_catnum_found [of info lab] c unfolding fb by simp
  have catg: "LoadImport_category (l1 @ [PilotEOL]) info = Inr (catnum r, endq, info)"
    by (simp add: LoadImport_category_def name num)
  have chr: "strchr (tl endq) 0x3D = Some (0x3D # 0x20 # dec (unat (secret r)) @ [PilotEOL])"
    by (simp add: endq_def bytes_def)
  have at: "atoi (0x20 # dec (unat (secret r)) @ PilotEOL # []) = int (unat (secret r))"
    by (rule atoi_dec_byte) (rule not_digit_EOL)
  have sec: "(if int (unat (secret r)) \<noteq> 0 then 1 else 0) = secret r"
    using byte_le_1 [OF s] by auto
  show ?thesis
    using test catg chr at sec rd
    by (simp add: LoadImport_catline_def Let_def)
qed

lemma LoadImport_placesline_export:
  fixes p z :: Byte
  defines "l2 \<equiv> bytes ''Places = '' @ dec (unat p) @ bytes ''; StripZeros = '' @ dec (unat z)"
  assumes z: "z \<le> 1"
    and rd: "ReadLine (l2 @ [PilotEOL]) 256 fp = Inr (n3, b3, fp3)" "1 \<le> n3"
  shows "LoadImport_placesline n (l2 @ [PilotEOL]) fp = Inr (Some (p, z, n3, b3), fp3)"
proof -
  define tail where "tail = 0x20 # dec (unat z) @ [PilotEOL]"
  define mid where "mid = 0x20 # dec (unat p) @ bytes ''; StripZeros '' @ 0x3D # tail"
  have buff: "l2 @ [PilotEOL] = bytes ''Places '' @ 0x3D # mid"
    by (simp add: l2_def mid_def tail_def bytes_def)
  have n: "PlacesTestLength = Suc (Suc (Suc (Suc (Suc (Suc (Suc (Suc (Suc 0))))))))"
    by (simp add: PlacesTestLength_def)
  have test: "strncmp (l2 @ [PilotEOL]) PlacesLine PlacesTestLength = 0"
    unfolding n by (simp add: l2_def bytes_def PlacesLine_def)
  have chr1: "strchr (l2 @ [PilotEOL]) 0x3D = Some (0x3D # mid)"
    unfolding buff by (simp add: bytes_def)
  have d: "\<And>c n. c \<in> set (dec n) \<Longrightarrow> c \<noteq> 0 \<and> c \<noteq> 0x3D"
    using dec_digits isdigit_not by blast
  have chr2: "strchr mid 0x3D = Some (0x3D # tail)"
  proof -
    have "strchr ((0x20 # dec (unat p) @ bytes ''; StripZeros '') @ 0x3D # tail) 0x3D = Some (0x3D # tail)"
      using d by (intro strchr_append) (auto simp: bytes_def)
    then show ?thesis by (simp add: mid_def)
  qed
  have at1: "atoi mid = int (unat p)"
  proof -
    have "atoi (0x20 # dec (unat p) @ (0x3B # bytes '' StripZeros '' @ 0x3D # tail)) = int (unat p)"
      by (rule atoi_dec_byte) (rule not_digit_semi)
    then show ?thesis by (simp add: mid_def bytes_def)
  qed
  have at2: "atoi tail = int (unat z)"
    unfolding tail_def by (rule atoi_dec_byte) (rule not_digit_EOL)
  have pl: "word_of_int (int (unat p)) = p" by simp
  have sz: "(if int (unat z) \<noteq> 0 then 1 else 0) = z"
    using byte_le_1 [OF z] by auto
  show ?thesis
    using test chr1 chr2 at1 at2 pl sz rd
    by (simp add: LoadImport_placesline_def Let_def)
qed

subsection \<open>LoadImport on the text of one record\<close>

lemma LoadImport_export_block:
  assumes ok: "reimportable_record info r"
    and c: "unat (catnum r) < dmRecNumCategories"
    and s: "secret r \<le> 1"
    and z: "0 \<notin> set (rtext r)"
  shows "LoadImport (export_block info r @ rest) info = Inr (Some r, rest, info)"
proof -
  define lab where "lab = cstr (categoryLabels (appinfo info) ! unat (catnum r))"
  define l1 where "l1 = bytes ''Category = '' @ [0x22] @ lab @ [0x22] @ bytes ''; Secret = '' @ dec (unat (secret r))"
  define l2 where "l2 = bytes ''Places = '' @ dec (unat (places r)) @ bytes ''; StripZeros = '' @ dec (unat (stripzeros r))"
  obtain t1 ts where tl: "text_lines (rtext r) = t1 # ts"
    using text_lines_nonempty [of "rtext r"] by (cases "text_lines (rtext r)") auto
  from ok have len: "length lab < dmCategoryLength"
    and q: "0x22 \<notin> set lab" and nl: "0x0A \<notin> set lab" and cr: "0x0D \<notin> set lab"
    and first: "\<forall>i \<in> set [0 ..< unat (catnum r)]. cstr (categoryLabels (appinfo info) ! i) \<noteq> lab"
    and sz: "stripzeros r \<le> 1"
    and lines: "\<forall>l \<in> set (text_lines (rtext r)). line_ok l"
    by (simp_all add: reimportable_record_def Let_def lab_def)
  have z0: "0 \<notin> set lab" by (simp add: lab_def cstr_no_zero)
  have good: "\<forall>l \<in> set (t1 # ts). line_ok l \<and> 0 \<notin> set l \<and> PilotEOL \<notin> set l"
  proof
    fix l assume l: "l \<in> set (t1 # ts)"
    then have "l \<in> set (text_lines (rtext r))" by (simp add: tl)
    from text_lines_set [OF this] z lines this
    show "line_ok l \<and> 0 \<notin> set l \<and> PilotEOL \<notin> set l" by auto
  qed
  define R3 where "R3 = concat (map (\<lambda>l. l @ [PilotEOL]) ts) @ cstr SeparatorLine @ rest"
  define R2 where "R2 = t1 @ PilotEOL # R3"
  define R1 where "R1 = l2 @ 0x0A # R2"
  have rt: "rtext r @ [PilotEOL] = t1 @ PilotEOL # concat (map (\<lambda>l. l @ [PilotEOL]) ts)"
    using text_lines_concat [of "rtext r"] by (simp add: tl)
  have "export_block info r @ rest =
        (l1 @ [0x0A]) @ (l2 @ [0x0A]) @ (rtext r @ [PilotEOL]) @ cstr SeparatorLine @ rest"
    by (simp add: export_block_def fprintf_CategoryLine fprintf_PlacesLine l1_def l2_def lab_def
        cstr_idem PilotEOL_def)
  then have blk: "export_block info r @ rest = l1 @ 0x0A # R1"
    unfolding rt by (simp add: R1_def R2_def R3_def)
  have rl1: "ReadLine [] 256 (l1 @ 0x0A # R1) = Inr (int (length l1 + 1), l1 @ [PilotEOL], R1)"
    unfolding l1_def using z0 nl cr len [unfolded dmCategoryLength_def] by (rule ReadLine_catline)
  have ne: "int (length l1 + 1) \<noteq> 1" by (simp add: l1_def bytes_def)
  have nb: "ReadLine_nonblank [] (l1 @ 0x0A # R1) = Inr (int (length l1 + 1), l1 @ [PilotEOL], R1)"
    using ne by (simp add: ReadLine_nonblank.simps [of "[]" "l1 @ 0x0A # R1"] rl1)
  have rl2: "ReadLine (l1 @ [PilotEOL]) 256 R1 = Inr (int (length l2 + 1), l2 @ [PilotEOL], R2)"
    unfolding R1_def l2_def by (rule ReadLine_placesline)
  have cl: "LoadImport_catline (int (length l1 + 1)) (l1 @ [PilotEOL]) R1 info =
            Inr (Some (catnum r, secret r, int (length l2 + 1), l2 @ [PilotEOL]), R2, info)"
    unfolding l1_def lab_def
    by (rule LoadImport_catline_export
        [OF c len [unfolded lab_def] q [unfolded lab_def] first [unfolded lab_def] s
            rl2 [unfolded l1_def lab_def]]) simp
  have rl3: "ReadLine (l2 @ [PilotEOL]) 256 R2 = Inr (int (length t1 + 1), t1 @ [PilotEOL], R3)"
    unfolding R2_def using good by (intro ReadLine_text_line) auto
  have pl: "LoadImport_placesline (int (length l2 + 1)) (l2 @ [PilotEOL]) R2 =
            Inr (Some (places r, stripzeros r, int (length t1 + 1), t1 @ [PilotEOL]), R3)"
    unfolding l2_def
    by (rule LoadImport_placesline_export [OF sz rl3 [unfolded l2_def]]) simp
  have "LoadImport_lines (t1 @ [PilotEOL]) (t1 @ [PilotEOL]) R3 =
        Inr ((t1 @ [PilotEOL]) @ concat (map (\<lambda>l. l @ [PilotEOL]) ts), rest)"
    unfolding R3_def using good by (intro LoadImport_lines_text) auto
  then have ln: "LoadImport_lines (t1 @ [PilotEOL]) (t1 @ [PilotEOL]) R3 =
                 Inr (rtext r @ [PilotEOL], rest)"
    by (simp add: rt)
  have tx: "cstr ((rtext r @ [PilotEOL])[length (rtext r @ [PilotEOL]) - 1 := 0]) = rtext r"
    using z by (simp add: cstr_append_zero)
  have tk: "take (nat (int (length t1 + 1))) (t1 @ [PilotEOL]) = t1 @ [PilotEOL]" by simp
  show ?thesis
    unfolding blk LoadImport_def nb
    using cl pl ln tx tk by simp
qed

lemma LoadImport_eof: "LoadImport [] info = Inr (None, [], info)"
  by (simp add: LoadImport_def ReadLine_nonblank.simps [of "[]" "[]"] ReadLine_def fgets_def)

lemma ProcessImports_body_same:
  "same_as_stored (RecordList (globs st)) r \<Longrightarrow> ProcessImports_body Confirm r st = st"
  by (auto simp: same_as_stored_def ProcessImports_body_def split: option.splits)

lemma ProcessImports_loop_export:
  assumes "\<forall>r \<in> set rs. reimportable_record (MpInfo (globs st)) r \<and>
             unat (catnum r) < dmRecNumCategories \<and> secret r \<le> 1 \<and> 0 \<notin> set (rtext r) \<and>
             same_as_stored (RecordList (globs st)) r"
  shows "ProcessImports_loop Confirm (concat (map (export_block (MpInfo (globs st))) rs)) st = Inr st"
  using assms
proof (induction rs)
  case Nil
  show ?case
    by (simp add: ProcessImports_loop.simps [of Confirm "[]" st] LoadImport_eof)
next
  case (Cons r rs)
  have li: "LoadImport (export_block (MpInfo (globs st)) r @
              concat (map (export_block (MpInfo (globs st))) rs)) (MpInfo (globs st)) =
            Inr (Some r, concat (map (export_block (MpInfo (globs st))) rs), MpInfo (globs st))"
    using Cons.prems by (intro LoadImport_export_block) auto
  have b: "ProcessImports_body Confirm r st = st"
    using Cons.prems by (intro ProcessImports_body_same) auto
  have ih: "ProcessImports_loop Confirm (concat (map (export_block (MpInfo (globs st))) rs)) st = Inr st"
    using Cons.prems by (intro Cons.IH) auto
  show ?case
    using li b ih
    by (simp add: ProcessImports_loop.simps
        [of Confirm "export_block (MpInfo (globs st)) r @ concat (map (export_block (MpInfo (globs st))) rs)" st])
qed

subsection \<open>What MpExport writes for a file that LoadDB reads\<close>

lemma unat_category: "unat ((a :: Byte) AND dmRecAttrCategoryMask) < dmRecNumCategories"
proof -
  have "a AND 0x0F \<le> 0x0F" by (rule word_and_le1)
  then have "unat (a AND 0x0F) \<le> 15" by (simp add: word_le_nat_alt)
  then show ?thesis by (simp add: dmRecAttrCategoryMask_def dmRecNumCategories_def)
qed

lemma label_slot:
  assumes "length mem = sizeof_MathPadAppInfoType" "c < dmRecNumCategories"
  shows "categoryLabels (appinfo (load_MathPadAppInfoType mem)) ! c =
         take dmCategoryLength (drop (offsetof_categoryLabels + dmCategoryLength * c)
           (take sizeof_AppInfoType mem))"
    and "length (categoryLabels (appinfo (load_MathPadAppInfoType mem)) ! c) = dmCategoryLength"
  using assms
  by (simp_all add: load_MathPadAppInfoType_def load_AppInfoType_def field_def
      dmRecNumCategories_def dmCategoryLength_def offsetof_categoryLabels_def
      sizeof_AppInfoType_def sizeof_MathPadAppInfoType_def)

lemma LoadDB_record_loaded:
  assumes "LoadDB_record db e = Inr (r, db')"
  shows "loaded r"
proof -
  from assms have r: "r = \<lparr>catnum = attributes e AND dmRecAttrCategoryMask,
                    places = content db ! seek_pos db e,
                    secret = (if attributes e AND dmRecAttrSecret \<noteq> 0 then 1 else 0),
                    stripzeros = content db ! (seek_pos db e + 1),
                    rtext = cstr (drop (seek_pos db e + offsetof_text) (content db))\<rparr>"
    by (simp add: LoadDB_record_eq Let_def split: if_splits)
  show ?thesis
    unfolding r loaded_def by (simp add: unat_category cstr_no_zero)
qed

lemma LoadDB_record_export:
  assumes ld: "LoadDB_record db e = Inr (r, db')"
    and mem: "length mem = sizeof_MathPadAppInfoType"
    and lab: "label_ok (load_MathPadAppInfoType mem) r"
  shows "MpExport_record (take sizeof_AppInfoType mem) db e out =
         Inr (db', out @ export_block (load_MathPadAppInfoType mem) r)"
proof -
  define pos where "pos = seek_pos db e"
  define payload where "payload = drop (pos + offsetof_text) (content db)"
  define c where "c = unat (attributes e AND dmRecAttrCategoryMask)"
  define label where "label = drop (offsetof_categoryLabels + dmCategoryLength * c) (take sizeof_AppInfoType mem)"
  define slot where "slot = categoryLabels (appinfo (load_MathPadAppInfoType mem)) ! c"
  from ld have inside: "\<not> length (content db) < pos + offsetof_text"
    and nul: "0 \<in> set payload"
    and r: "r = \<lparr>catnum = attributes e AND dmRecAttrCategoryMask,
                    places = content db ! pos,
                    secret = (if attributes e AND dmRecAttrSecret \<noteq> 0 then 1 else 0),
                    stripzeros = content db ! (pos + 1),
                    rtext = cstr payload\<rparr>"
    and db': "db' = db\<lparr>fpos := pos + offsetof_text + length (cstr payload) + 1\<rparr>"
    by (simp_all add: LoadDB_record_eq Let_def pos_def payload_def split: if_splits)
  have c16: "c < dmRecNumCategories" unfolding c_def by (rule unat_category)
  have slot: "slot = take dmCategoryLength label" "length slot = dmCategoryLength"
    unfolding slot_def label_def by (rule label_slot [OF mem c16])+
  have "length (cstr slot) < dmCategoryLength"
    using lab by (simp add: label_ok_def r c_def slot_def)
  then have "0 \<in> set slot" using slot(2) by (simp add: length_cstr_less)
  then have z: "0 \<in> set (take dmCategoryLength label)" by (simp add: slot(1))
  then have zl: "0 \<in> set label" by (rule in_set_takeD)
  have cs: "cstr slot = cstr label" unfolding slot(1) using z by (rule cstr_take)
  have s: "Num (if attributes e AND dmRecAttrSecret \<noteq> 0 then 1 else 0) = Num (uint (secret r))"
    by (simp add: r)
  have cat: "fprintf CategoryLine [Str label, Num (uint (secret r))] =
             fprintf CategoryLine [Str slot, Num (uint (secret r))]"
    by (simp only: fprintf_CategoryLine cs)
  have blk: "export_block (load_MathPadAppInfoType mem) r =
             fprintf CategoryLine [Str slot, Num (uint (secret r))] @
             fprintf PlacesLine [Num (uint (content db ! pos)), Num (uint (content db ! (pos + 1)))] @
             cstr payload @ [0x0A] @ cstr SeparatorLine"
    by (simp add: export_block_def slot_def c_def r)
  have "MpExport_record (take sizeof_AppInfoType mem) db e out =
        Inr (db\<lparr>fpos := pos + offsetof_text + length (cstr payload) + 1\<rparr>,
             out @ fprintf CategoryLine [Str label, Num (uint (secret r))] @
             fprintf PlacesLine [Num (uint (content db ! pos)), Num (uint (content db ! (pos + 1)))] @
             cstr payload @ [0x0A] @ cstr SeparatorLine)"
    unfolding MpExport_record_eq Let_def s
    using inside nul zl
    by (simp add: pos_def [symmetric] payload_def [symmetric] c_def [symmetric] label_def [symmetric])
  then show ?thesis
    unfolding cat blk db' by simp
qed

lemma LoadDB_entries_export:
  assumes "LoadDB_entries db es g1 = Inr (g2, db')"
    and mem: "length mem = sizeof_MathPadAppInfoType"
  shows "\<exists>rs. RecordList g2 = RecordList g1 @ rs \<and> MpInfo g2 = MpInfo g1 \<and>
           (\<forall>r \<in> set rs. loaded r) \<and>
           ((\<forall>r \<in> set rs. label_ok (load_MathPadAppInfoType mem) r) \<longrightarrow>
            (\<forall>out. MpExport_entries (take sizeof_AppInfoType mem) db es out =
                   Inr (db', out @ concat (map (export_block (load_MathPadAppInfoType mem)) rs))))"
  using assms(1)
proof (induction es arbitrary: db g1)
  case Nil
  then show ?case by simp
next
  case (Cons e es)
  from Cons.prems obtain r db1 where
    ld: "LoadDB_record db e = Inr (r, db1)"
    and rest: "LoadDB_entries db1 es (AddRecord r g1) = Inr (g2, db')"
    by (auto split: sum.splits)
  from Cons.IH [OF rest] obtain rs where
    rs: "RecordList g2 = RecordList (AddRecord r g1) @ rs" "MpInfo g2 = MpInfo (AddRecord r g1)"
      "\<forall>r \<in> set rs. loaded r"
      "(\<forall>r \<in> set rs. label_ok (load_MathPadAppInfoType mem) r) \<longrightarrow>
       (\<forall>out. MpExport_entries (take sizeof_AppInfoType mem) db1 es out =
              Inr (db', out @ concat (map (export_block (load_MathPadAppInfoType mem)) rs)))"
    by blast
  have 1: "RecordList g2 = RecordList g1 @ (r # rs)" using rs(1) by (simp add: AddRecord_def)
  have 2: "MpInfo g2 = MpInfo g1" using rs(2) by (simp add: AddRecord_def)
  have 3: "\<forall>x \<in> set (r # rs). loaded x"
    using rs(3) LoadDB_record_loaded [OF ld] by simp
  have 4: "(\<forall>x \<in> set (r # rs). label_ok (load_MathPadAppInfoType mem) x) \<longrightarrow>
       (\<forall>out. MpExport_entries (take sizeof_AppInfoType mem) db (e # es) out =
              Inr (db', out @ concat (map (export_block (load_MathPadAppInfoType mem)) (r # rs))))"
  proof (intro impI allI)
    fix out
    assume a: "\<forall>x \<in> set (r # rs). label_ok (load_MathPadAppInfoType mem) x"
    then have "label_ok (load_MathPadAppInfoType mem) r" by simp
    from LoadDB_record_export [OF ld mem this]
    have e: "MpExport_record (take sizeof_AppInfoType mem) db e out =
             Inr (db1, out @ export_block (load_MathPadAppInfoType mem) r)" .
    from a rs(4) have "MpExport_entries (take sizeof_AppInfoType mem) db1 es
             (out @ export_block (load_MathPadAppInfoType mem) r) =
           Inr (db', (out @ export_block (load_MathPadAppInfoType mem) r) @
                concat (map (export_block (load_MathPadAppInfoType mem)) rs))"
      by simp
    with e show "MpExport_entries (take sizeof_AppInfoType mem) db (e # es) out =
              Inr (db', out @ concat (map (export_block (load_MathPadAppInfoType mem)) (r # rs)))"
      by simp
  qed
  from 1 2 3 4 show ?case by blast
qed

lemma LoadDB_list_export:
  assumes ld: "LoadDB_list db lp g1 = Inr (g2, db', lp')"
    and mem: "length mem = sizeof_MathPadAppInfoType"
  shows "\<exists>rs. RecordList g2 = RecordList g1 @ rs \<and> MpInfo g2 = MpInfo g1 \<and>
           (\<forall>r \<in> set rs. loaded r) \<and>
           ((\<forall>r \<in> set rs. label_ok (load_MathPadAppInfoType mem) r) \<longrightarrow>
            (\<forall>out. MpExport_list (take sizeof_AppInfoType mem) db lp out =
                   Inr (db', lp', out @ concat (map (export_block (load_MathPadAppInfoType mem)) rs))))"
proof -
  obtain m1 d1 where f1: "fread offsetof_firstEntry (fseek lp db) = (m1, d1)"
    by (cases "fread offsetof_firstEntry (fseek lp db)")
  define n where "n = SwapWord (numRecords (load_RecordListType m1))"
  define nxt where "nxt = long_of_DWord (SwapDWord (nextRecordListID (load_RecordListType m1)))"
  obtain m2 d2 where f2: "fread (unat n * sizeof_RecordEntryType) d1 = (m2, d2)"
    by (cases "fread (unat n * sizeof_RecordEntryType) d1")
  have l1: "length m1 = offsetof_firstEntry"
    using ld f1 by (auto simp: LoadDB_list_def Let_def split: if_splits)
  show ?thesis
  proof (cases "n > 0")
    case False
    have "g2 = g1" "db' = d1" "lp' = nxt"
      using ld f1 l1 False by (simp_all add: LoadDB_list_def Let_def n_def nxt_def)
    moreover have "MpExport_list (take sizeof_AppInfoType mem) db lp out = Inr (d1, nxt, out)" for out
      using f1 l1 False by (simp add: MpExport_list_def Let_def n_def nxt_def)
    ultimately show ?thesis by simp
  next
    case True
    have l2: "length m2 = unat n * sizeof_RecordEntryType"
      using ld f1 l1 True f2 by (auto simp: LoadDB_list_def Let_def n_def split: if_splits)
    have en: "LoadDB_entries d2 (entries_of (unat n) m2) g1 = Inr (g2, db')" and lp': "lp' = nxt"
      using ld f1 l1 True f2 l2
      by (auto simp: LoadDB_list_def Let_def n_def nxt_def split: sum.splits)
    from LoadDB_entries_export [OF en mem] obtain rs where
      rs: "RecordList g2 = RecordList g1 @ rs" "MpInfo g2 = MpInfo g1" "\<forall>r \<in> set rs. loaded r"
        "(\<forall>r \<in> set rs. label_ok (load_MathPadAppInfoType mem) r) \<longrightarrow>
         (\<forall>out. MpExport_entries (take sizeof_AppInfoType mem) d2 (entries_of (unat n) m2) out =
                Inr (db', out @ concat (map (export_block (load_MathPadAppInfoType mem)) rs)))"
      by blast
    have "(\<forall>r \<in> set rs. label_ok (load_MathPadAppInfoType mem) r) \<longrightarrow>
         (\<forall>out. MpExport_list (take sizeof_AppInfoType mem) db lp out =
                Inr (db', lp', out @ concat (map (export_block (load_MathPadAppInfoType mem)) rs)))"
    proof (intro impI allI)
      fix out
      assume "\<forall>r \<in> set rs. label_ok (load_MathPadAppInfoType mem) r"
      with rs(4) have "MpExport_entries (take sizeof_AppInfoType mem) d2 (entries_of (unat n) m2) out =
                Inr (db', out @ concat (map (export_block (load_MathPadAppInfoType mem)) rs))"
        by simp
      then show "MpExport_list (take sizeof_AppInfoType mem) db lp out =
                Inr (db', lp', out @ concat (map (export_block (load_MathPadAppInfoType mem)) rs))"
        using f1 l1 True f2 l2 lp'
        by (simp add: MpExport_list_def Let_def n_def [symmetric] nxt_def [symmetric])
    qed
    with rs(1,2,3) show ?thesis by blast
  qed
qed

lemma LoadDB_lists_export:
  assumes ld: "LoadDB_lists db lp g1 = Some y"
    and mem: "length mem = sizeof_MathPadAppInfoType"
  shows "\<forall>g2. y = Inr g2 \<longrightarrow>
         (\<exists>rs. RecordList g2 = RecordList g1 @ rs \<and> MpInfo g2 = MpInfo g1 \<and>
           (\<forall>r \<in> set rs. loaded r) \<and>
           ((\<forall>r \<in> set rs. label_ok (load_MathPadAppInfoType mem) r) \<longrightarrow>
            (\<forall>out. MpExport_lists (take sizeof_AppInfoType mem) db lp out =
                   Some (Inr (out @ concat (map (export_block (load_MathPadAppInfoType mem)) rs))))))"
proof (rule LoadDB_lists.raw_induct [where P = "\<lambda>db lp g1 y. \<forall>g2. y = Inr g2 \<longrightarrow>
         (\<exists>rs. RecordList g2 = RecordList g1 @ rs \<and> MpInfo g2 = MpInfo g1 \<and>
           (\<forall>r \<in> set rs. loaded r) \<and>
           ((\<forall>r \<in> set rs. label_ok (load_MathPadAppInfoType mem) r) \<longrightarrow>
            (\<forall>out. MpExport_lists (take sizeof_AppInfoType mem) db lp out =
                   Some (Inr (out @ concat (map (export_block (load_MathPadAppInfoType mem)) rs))))))", OF _ ld])
  fix f :: "FILE \<Rightarrow> int \<Rightarrow> globals \<Rightarrow> (error + globals) option" and db lp g1 y
  assume IH: "\<And>db lp g1 y. f db lp g1 = Some y \<Longrightarrow> \<forall>g2. y = Inr g2 \<longrightarrow>
         (\<exists>rs. RecordList g2 = RecordList g1 @ rs \<and> MpInfo g2 = MpInfo g1 \<and>
           (\<forall>r \<in> set rs. loaded r) \<and>
           ((\<forall>r \<in> set rs. label_ok (load_MathPadAppInfoType mem) r) \<longrightarrow>
            (\<forall>out. MpExport_lists (take sizeof_AppInfoType mem) db lp out =
                   Some (Inr (out @ concat (map (export_block (load_MathPadAppInfoType mem)) rs))))))"
  assume step: "(case LoadDB_list db lp g1 of
             Inl e \<Rightarrow> Some (Inl e)
           | Inr (g, db, listpos) \<Rightarrow> if listpos \<noteq> 0 then f db listpos g else Some (Inr g)) = Some y"
  show "\<forall>g2. y = Inr g2 \<longrightarrow>
         (\<exists>rs. RecordList g2 = RecordList g1 @ rs \<and> MpInfo g2 = MpInfo g1 \<and>
           (\<forall>r \<in> set rs. loaded r) \<and>
           ((\<forall>r \<in> set rs. label_ok (load_MathPadAppInfoType mem) r) \<longrightarrow>
            (\<forall>out. MpExport_lists (take sizeof_AppInfoType mem) db lp out =
                   Some (Inr (out @ concat (map (export_block (load_MathPadAppInfoType mem)) rs))))))"
  proof (intro allI impI)
    fix g2 assume y: "y = Inr g2"
    from step y obtain ga dba lpa where
      l: "LoadDB_list db lp g1 = Inr (ga, dba, lpa)"
      and nxt: "(if lpa \<noteq> 0 then f dba lpa ga else Some (Inr ga)) = Some (Inr g2)"
      by (auto split: sum.splits)
    from LoadDB_list_export [OF l mem] obtain rs1 where
      rs1: "RecordList ga = RecordList g1 @ rs1" "MpInfo ga = MpInfo g1" "\<forall>r \<in> set rs1. loaded r"
        "(\<forall>r \<in> set rs1. label_ok (load_MathPadAppInfoType mem) r) \<longrightarrow>
         (\<forall>out. MpExport_list (take sizeof_AppInfoType mem) db lp out =
                Inr (dba, lpa, out @ concat (map (export_block (load_MathPadAppInfoType mem)) rs1)))"
      by blast
    show "\<exists>rs. RecordList g2 = RecordList g1 @ rs \<and> MpInfo g2 = MpInfo g1 \<and>
           (\<forall>r \<in> set rs. loaded r) \<and>
           ((\<forall>r \<in> set rs. label_ok (load_MathPadAppInfoType mem) r) \<longrightarrow>
            (\<forall>out. MpExport_lists (take sizeof_AppInfoType mem) db lp out =
                   Some (Inr (out @ concat (map (export_block (load_MathPadAppInfoType mem)) rs)))))"
    proof (cases "lpa = 0")
      case True
      with nxt have g: "g2 = ga" by simp
      have "(\<forall>r \<in> set rs1. label_ok (load_MathPadAppInfoType mem) r) \<longrightarrow>
            (\<forall>out. MpExport_lists (take sizeof_AppInfoType mem) db lp out =
                   Some (Inr (out @ concat (map (export_block (load_MathPadAppInfoType mem)) rs1))))"
        using rs1(4) True
        by (simp add: MpExport_lists.simps [of "take sizeof_AppInfoType mem" db lp])
      with rs1(1,2,3) g show ?thesis by blast
    next
      case False
      with nxt have "f dba lpa ga = Some (Inr g2)" by simp
      from IH [OF this] obtain rs2 where
        rs2: "RecordList g2 = RecordList ga @ rs2" "MpInfo g2 = MpInfo ga" "\<forall>r \<in> set rs2. loaded r"
          "(\<forall>r \<in> set rs2. label_ok (load_MathPadAppInfoType mem) r) \<longrightarrow>
           (\<forall>out. MpExport_lists (take sizeof_AppInfoType mem) dba lpa out =
                  Some (Inr (out @ concat (map (export_block (load_MathPadAppInfoType mem)) rs2))))"
        by blast
      have 1: "RecordList g2 = RecordList g1 @ (rs1 @ rs2)" using rs1(1) rs2(1) by simp
      have 2: "MpInfo g2 = MpInfo g1" using rs1(2) rs2(2) by simp
      have 3: "\<forall>r \<in> set (rs1 @ rs2). loaded r" using rs1(3) rs2(3) by auto
      have 4: "(\<forall>r \<in> set (rs1 @ rs2). label_ok (load_MathPadAppInfoType mem) r) \<longrightarrow>
            (\<forall>out. MpExport_lists (take sizeof_AppInfoType mem) db lp out =
                   Some (Inr (out @ concat (map (export_block (load_MathPadAppInfoType mem)) (rs1 @ rs2)))))"
      proof (intro impI allI)
        fix out
        assume a: "\<forall>r \<in> set (rs1 @ rs2). label_ok (load_MathPadAppInfoType mem) r"
        from a rs1(4) have e1: "MpExport_list (take sizeof_AppInfoType mem) db lp out =
                Inr (dba, lpa, out @ concat (map (export_block (load_MathPadAppInfoType mem)) rs1))"
          by simp
        from a rs2(4) have e2: "MpExport_lists (take sizeof_AppInfoType mem) dba lpa
                  (out @ concat (map (export_block (load_MathPadAppInfoType mem)) rs1)) =
                Some (Inr ((out @ concat (map (export_block (load_MathPadAppInfoType mem)) rs1)) @
                   concat (map (export_block (load_MathPadAppInfoType mem)) rs2)))"
          by simp
        show "MpExport_lists (take sizeof_AppInfoType mem) db lp out =
                   Some (Inr (out @ concat (map (export_block (load_MathPadAppInfoType mem)) (rs1 @ rs2))))"
          using e1 e2 False
          by (simp add: MpExport_lists.simps [of "take sizeof_AppInfoType mem" db lp])
      qed
      from 1 2 3 4 show ?thesis by blast
    qed
  qed
qed

lemma fseek_twice: "fseek lp (fseek lp db) = fseek lp db"
  by (simp add: fseek_def)

lemma LoadDB_list_seek: "LoadDB_list (fseek lp db) lp g = LoadDB_list db lp g"
  by (simp only: LoadDB_list_def fseek_twice)

lemma MpExport_list_seek: "MpExport_list info (fseek lp db) lp out = MpExport_list info db lp out"
  by (simp only: MpExport_list_def fseek_twice)

lemma LoadDB_lists_seek: "LoadDB_lists (fseek lp db) lp g = LoadDB_lists db lp g"
  by (simp only: LoadDB_lists.simps [of "fseek lp db" lp g] LoadDB_lists.simps [of db lp g]
      LoadDB_list_seek)

lemma MpExport_lists_seek: "MpExport_lists info (fseek lp db) lp out = MpExport_lists info db lp out"
  by (simp only: MpExport_lists.simps [of info "fseek lp db" lp out]
      MpExport_lists.simps [of info db lp out] MpExport_list_seek)

lemma LoadDB_export:
  assumes ld: "LoadDB db g0 = Some (Inr g)"
    and empty: "RecordList g0 = []"
  shows "(\<forall>r \<in> set (RecordList g). loaded r) \<and>
         ((\<forall>r \<in> set (RecordList g). label_ok (MpInfo g) r) \<longrightarrow>
          MpExport_main db = Some (Inr (concat (map (export_block (MpInfo g)) (RecordList g)))))"
proof -
  obtain m d where f1: "fread offsetof_recordList db = (m, d)"
    by (cases "fread offsetof_recordList db")
  have l1: "length m = offsetof_recordList"
    using ld f1 by (auto simp: LoadDB_def Let_def split: if_splits)
  have good: "good_header m"
    using ld f1 l1 by (auto simp: LoadDB_def Let_def check_Hdr_iff split: if_splits)
  define hdr where "hdr = (load_DatabaseHdrType m)\<lparr>appInfoID := SwapDWord (appInfoID (load_DatabaseHdrType m))\<rparr>"
  define d2 where "d2 = fseek (long_of_DWord (SwapDWord (appInfoID (load_DatabaseHdrType m)))) d"
  obtain mem d3 where f2: "fread sizeof_MathPadAppInfoType d2 = (mem, d3)"
    by (cases "fread sizeof_MathPadAppInfoType d2")
  have l2: "length mem = sizeof_MathPadAppInfoType"
    using ld f1 l1 good f2
    by (auto simp: LoadDB_def Let_def check_Hdr_iff d2_def split: if_splits)
  have lists: "LoadDB_lists d3 (ftell d) (g0\<lparr>Hdr := hdr, MpInfo := load_MathPadAppInfoType mem\<rparr>) =
               Some (Inr g)"
    using ld f1 l1 good f2 l2
    by (simp add: LoadDB_def Let_def check_Hdr_iff d2_def hdr_def)
  obtain info d3' where f3: "fread sizeof_AppInfoType d2 = (info, d3')"
    by (cases "fread sizeof_AppInfoType d2")
  have mem_eq: "mem = take sizeof_MathPadAppInfoType (drop (fpos d2) (content d2))"
    and info_eq: "info = take sizeof_AppInfoType (drop (fpos d2) (content d2))"
    and c3: "content d3 = content d2" "content d3' = content d2"
    using f2 f3 by (auto simp: fread_def Let_def)
  have info: "info = take sizeof_AppInfoType mem"
    unfolding mem_eq info_eq
    by (simp add: sizeof_AppInfoType_def sizeof_MathPadAppInfoType_def)
  have l3: "length info = sizeof_AppInfoType"
    unfolding info using l2 by (simp add: sizeof_AppInfoType_def sizeof_MathPadAppInfoType_def)
  have same: "fseek (ftell d) d3' = fseek (ftell d) d3"
    using c3 by (simp add: fseek_def ftell_def)
  have main: "MpExport_main db = MpExport_lists (take sizeof_AppInfoType mem) d3' (ftell d) []"
    using f1 l1 good f3 l3
    by (simp add: MpExport_main_def Let_def MpExport_check_Hdr_iff d2_def info [symmetric])
  also have "\<dots> = MpExport_lists (take sizeof_AppInfoType mem) d3 (ftell d) []"
    using MpExport_lists_seek [of "take sizeof_AppInfoType mem" "ftell d" d3' "[]"]
      MpExport_lists_seek [of "take sizeof_AppInfoType mem" "ftell d" d3 "[]"] same
    by simp
  finally have main: "MpExport_main db = MpExport_lists (take sizeof_AppInfoType mem) d3 (ftell d) []" .
  from LoadDB_lists_export [OF lists l2] empty obtain rs where
    rs: "RecordList g = rs" "MpInfo g = load_MathPadAppInfoType mem" "\<forall>r \<in> set rs. loaded r"
      "(\<forall>r \<in> set rs. label_ok (load_MathPadAppInfoType mem) r) \<longrightarrow>
       (\<forall>out. MpExport_lists (take sizeof_AppInfoType mem) d3 (ftell d) out =
              Some (Inr (out @ concat (map (export_block (load_MathPadAppInfoType mem)) rs))))"
    by auto
  show ?thesis
    unfolding main rs(1,2) using rs(3,4) by simp
qed

subsection \<open>The example files\<close>

lemma LoadDB_twins:
  "LoadDB \<lparr>content = twins_db, fpos = 0\<rparr> globals0 = Some (Inr twins_globals)"
  by code_simp

lemma MpExport_twins:
  "MpExport_main \<lparr>content = twins_db, fpos = 0\<rparr> = Some (Inr twins_text)"
  by code_simp

lemma MpExport_example:
  "MpExport_main \<lparr>content = example_db, fpos = 0\<rparr> = Some (Inr example_text)"
  by code_simp

lemma reimportable_example: "reimportable example_globals"
  by code_simp

lemma twins_records_reimportable:
  "list_all (reimportable_record (MpInfo twins_globals)) (RecordList twins_globals)"
  by code_simp

section \<open>Facts about a run of the merge engine\<close>

text \<open>The loop of \<open>ProcessImports\<close> is the loop body folded over the imports of the text.\<close>

lemma ProcessImports_body_info:
  "ProcessImports_body Confirm newrec (with_info info r) =
   with_info info (ProcessImports_body Confirm newrec r)"
proof (cases "FindRecord (rtext newrec) (RecordList (globs r))")
  case None
  then show ?thesis
    by (simp add: ProcessImports_body_def with_info_def AddRecord_def)
next
  case (Some i)
  show ?thesis
  proof (cases "differs newrec (RecordList (globs r) ! i)")
    case False
    with Some show ?thesis by (simp add: ProcessImports_body_def with_info_def)
  next
    case True
    show ?thesis
    proof (cases "allok r")
      case a: True
      with Some True show ?thesis
        by (simp add: ProcessImports_body_def with_info_def ReplaceRecord_def Let_def)
    next
      case a: False
      with Some True show ?thesis
        by (cases "Confirm (asked r @ [rtext (RecordList (globs r) ! i)])")
          (simp_all add: ProcessImports_body_def with_info_def ReplaceRecord_def AddRecord_def Let_def)
    qed
  qed
qed

lemma fold_body_info:
  "fold (ProcessImports_body Confirm) recs (with_info info r) =
   with_info info (fold (ProcessImports_body Confirm) recs r)"
  by (induction recs arbitrary: r) (simp_all add: ProcessImports_body_info)

lemma with_info_twice: "with_info info (with_info info' r) = with_info info r"
  by (simp add: with_info_def)

lemma ProcessImports_loop_fold:
  "LoadImports fp (MpInfo (globs r)) = Inr (recs, info) \<Longrightarrow>
   ProcessImports_loop Confirm fp r =
     Inr (with_info info (fold (ProcessImports_body Confirm) recs r))"
proof (induction "length fp" arbitrary: fp r recs info rule: less_induct)
  case less
  note li = less.prems [unfolded LoadImports.simps [of fp "MpInfo (globs r)"]]
  show ?case
  proof (cases "LoadImport fp (MpInfo (globs r))")
    case (Inl e)
    with li show ?thesis by simp
  next
    case (Inr t)
    obtain res fp' info' where t: "t = (res, fp', info')" by (cases t)
    show ?thesis
    proof (cases res)
      case None
      with li Inr t show ?thesis
        by (simp add: ProcessImports_loop.simps [of Confirm fp r] with_info_def)
    next
      case (Some newrec)
      from li Inr t Some obtain rest where
        rest: "LoadImports fp' info' = Inr (rest, info)" and recs: "recs = newrec # rest"
        by (auto split: sum.splits)
      have shorter: "length fp' < length fp"
        using Inr t Some by (intro LoadImport_shorter [of fp "MpInfo (globs r)" newrec fp' info']) simp
      define r1 where "r1 = ProcessImports_body Confirm newrec (with_info info' r)"
      have m: "MpInfo (globs r1) = info'"
        by (simp add: r1_def ProcessImports_body_info) (simp add: with_info_def)
      have "ProcessImports_loop Confirm fp' r1 =
            Inr (with_info info (fold (ProcessImports_body Confirm) rest r1))"
        using rest by (intro less.hyps [OF shorter]) (simp add: m)
      moreover have "ProcessImports_loop Confirm fp r = ProcessImports_loop Confirm fp' r1"
        using Inr t Some
        by (simp add: ProcessImports_loop.simps [of Confirm fp r] r1_def with_info_def)
      moreover have "with_info info (fold (ProcessImports_body Confirm) rest r1) =
            with_info info (fold (ProcessImports_body Confirm) recs r)"
        by (simp add: recs r1_def ProcessImports_body_info fold_body_info with_info_twice)
      ultimately show ?thesis by simp
    qed
  qed
qed

lemma ProcessImports_run:
  "LoadImports fp (MpInfo g) = Inr (recs, info) \<Longrightarrow>
   ProcessImports Confirm fp g = Inr (with_info info (run_state Confirm recs g))"
  using ProcessImports_loop_fold [of fp "\<lparr>allok = False, asked = [], globs = g\<rparr>" recs info Confirm]
  by (simp add: ProcessImports_def run_state_def)

lemma run_state_snoc:
  "run_state Confirm (recs @ [newrec]) g =
   ProcessImports_body Confirm newrec (run_state Confirm recs g)"
  by (simp add: run_state_def)






subsection \<open>The record count\<close>

text \<open>
  The program keeps \<open>NumRecords\<close> equal to the length of the list, counted in a \<open>Word\<close>
  (so modulo 65536): \<open>LoadDB\<close> starts from the empty list, and \<open>AddRecord\<close> and
  \<open>ReplaceRecord\<close> are the only functions that change the list.
\<close>

lemma AddRecord_counted:
  "NumRecords g = of_nat (length (RecordList g)) \<Longrightarrow>
   NumRecords (AddRecord recptr g) = of_nat (length (RecordList (AddRecord recptr g)))"
  by (simp add: AddRecord_def)

lemma ReplaceRecord_counted:
  "NumRecords g = of_nat (length (RecordList g)) \<Longrightarrow>
   NumRecords (ReplaceRecord oldptr newptr g) = of_nat (length (RecordList (ReplaceRecord oldptr newptr g)))"
  by (simp add: ReplaceRecord_def)

lemma LoadDB_entries_counted:
  "LoadDB_entries db es g = Inr (g', db') \<Longrightarrow> NumRecords g = of_nat (length (RecordList g)) \<Longrightarrow>
   NumRecords g' = of_nat (length (RecordList g'))"
proof (induction es arbitrary: db g)
  case Nil
  then show ?case by simp
next
  case (Cons e es)
  from Cons.prems(1) obtain r db1 where
    "LoadDB_record db e = Inr (r, db1)" and rest: "LoadDB_entries db1 es (AddRecord r g) = Inr (g', db')"
    by (auto split: sum.splits)
  from Cons.IH [OF rest AddRecord_counted [OF Cons.prems(2)]] show ?case .
qed

lemma LoadDB_list_counted:
  "LoadDB_list db lp g = Inr (g', db', lp') \<Longrightarrow> NumRecords g = of_nat (length (RecordList g)) \<Longrightarrow>
   NumRecords g' = of_nat (length (RecordList g'))"
  by (auto simp: LoadDB_list_def Let_def split: prod.splits if_splits sum.splits
      dest: LoadDB_entries_counted)

lemma LoadDB_lists_counted:
  assumes "LoadDB_lists db lp g = Some y"
  shows "\<forall>g'. y = Inr g' \<longrightarrow> NumRecords g = of_nat (length (RecordList g)) \<longrightarrow>
         NumRecords g' = of_nat (length (RecordList g'))"
proof (rule LoadDB_lists.raw_induct [where P = "\<lambda>db lp g y. \<forall>g'. y = Inr g' \<longrightarrow>
         NumRecords g = of_nat (length (RecordList g)) \<longrightarrow>
         NumRecords g' = of_nat (length (RecordList g'))", OF _ assms])
  fix f :: "FILE \<Rightarrow> int \<Rightarrow> globals \<Rightarrow> (error + globals) option" and db lp g y
  assume IH: "\<And>db lp g y. f db lp g = Some y \<Longrightarrow> \<forall>g'. y = Inr g' \<longrightarrow>
         NumRecords g = of_nat (length (RecordList g)) \<longrightarrow>
         NumRecords g' = of_nat (length (RecordList g'))"
  assume step: "(case LoadDB_list db lp g of
             Inl e \<Rightarrow> Some (Inl e)
           | Inr (g, db, listpos) \<Rightarrow> if listpos \<noteq> 0 then f db listpos g else Some (Inr g)) = Some y"
  show "\<forall>g'. y = Inr g' \<longrightarrow> NumRecords g = of_nat (length (RecordList g)) \<longrightarrow>
         NumRecords g' = of_nat (length (RecordList g'))"
  proof (intro allI impI)
    fix g' assume y: "y = Inr g'" and c: "NumRecords g = of_nat (length (RecordList g))"
    from step y obtain ga dba lpa where
      l: "LoadDB_list db lp g = Inr (ga, dba, lpa)"
      and nxt: "(if lpa \<noteq> 0 then f dba lpa ga else Some (Inr ga)) = Some (Inr g')"
      by (auto split: sum.splits)
    note ca = LoadDB_list_counted [OF l c]
    show "NumRecords g' = of_nat (length (RecordList g'))"
    proof (cases "lpa = 0")
      case True
      with nxt ca show ?thesis by simp
    next
      case False
      with nxt have "f dba lpa ga = Some (Inr g')" by simp
      from IH [OF this] ca show ?thesis by simp
    qed
  qed
qed

lemma LoadDB_counted:
  assumes "LoadDB db globals0 = Some (Inr g)"
  shows "NumRecords g = of_nat (length (RecordList g))"
proof -
  from assms obtain db' lp hdr info where
    "LoadDB_lists db' lp (globals0\<lparr>Hdr := hdr, MpInfo := info\<rparr>) = Some (Inr g)"
    by (auto simp: LoadDB_def Let_def split: prod.splits if_splits sum.splits)
  from LoadDB_lists_counted [OF this] show ?thesis by (simp add: globals0_def)
qed

lemma ProcessImports_body_counted:
  "NumRecords (globs r) = of_nat (length (RecordList (globs r))) \<Longrightarrow>
   NumRecords (globs (ProcessImports_body Confirm newrec r)) =
     of_nat (length (RecordList (globs (ProcessImports_body Confirm newrec r))))"
  by (auto simp: ProcessImports_body_def Let_def AddRecord_def ReplaceRecord_def
      split: option.splits ReplyType.splits)

lemma run_state_counted:
  "NumRecords g = of_nat (length (RecordList g)) \<Longrightarrow>
   NumRecords (globs (run_state Confirm recs g)) =
     of_nat (length (RecordList (globs (run_state Confirm recs g))))"
proof (induction recs rule: rev_induct)
  case Nil
  then show ?case by (simp add: run_state_def)
next
  case (snoc newrec recs)
  then show ?case unfolding run_state_snoc by (intro ProcessImports_body_counted) simp
qed

lemma ProcessImports_counted:
  assumes "LoadImports fp (MpInfo g) = Inr (recs, info)"
    and "NumRecords g = of_nat (length (RecordList g))"
  shows "\<exists>r. ProcessImports Confirm fp g = Inr r \<and>
             NumRecords (globs r) = of_nat (length (RecordList (globs r)))"
  using ProcessImports_run [OF assms(1), of Confirm] run_state_counted [OF assms(2), of Confirm recs]
  by (simp add: with_info_def)

section \<open>Claims\<close>

text \<open>
  C9. SwapWord and SwapDWord are involutions: swapping any 2-byte value twice gives the
  value back, and so does swapping any 4-byte value twice. LoadDB relies on it when it
  swaps the version word, tests it and swaps it back.
\<close>

theorem C9_swap_involutions:
  "SwapWord (SwapWord w) = w \<and> SwapDWord (SwapDWord d) = d"
  by (simp add: SwapWord_twice SwapDWord_twice)

theorem C9_swap_involutions_witness:
  "SwapWord 0x0100 = 0x0001 \<and> SwapWord (SwapWord 0x0100) = 0x0100 \<and>
   SwapDWord 0x01020304 = 0x04030201 \<and> SwapDWord (SwapDWord 0x01020304) = 0x01020304"
  using C9_swap_involutions [of "0x0100" "0x01020304"]
  by (simp add: SwapDWord_def SwapWord_def byte_at_def Word_of_bytes_def word_at_def
      DWord_of_words_def)

text \<open>
  C4. Title lookup: \<open>FindRecord\<close> takes a stored record for the import's title exactly
  when the stored text agrees with the import's text at every position before the byte
  that ends the import's title, and has that same byte at that position too. The byte
  that ends the title is a \<open>PilotEOL\<close>, or the NUL that ends a text of one line. So a
  whole line is compared, not a prefix. \<open>FindRecord\<close> returns the first such record,
  and \<open>NULL\<close> when there is none.
\<close>

theorem C4_title_lookup:
  "(title_match title stored \<longleftrightarrow>
      (\<forall>i < title_len title. char_at stored i = char_at title i) \<and>
      char_at stored (title_len title) = char_at title (title_len title)) \<and>
   (char_at title (title_len title) = 0 \<or> char_at title (title_len title) = PilotEOL) \<and>
   (FindRecord title rs = Some k \<longleftrightarrow>
      k < length rs \<and> title_match title (rtext (rs ! k)) \<and>
      (\<forall>j < k. \<not> title_match title (rtext (rs ! j)))) \<and>
   (FindRecord title rs = None \<longleftrightarrow> (\<forall>r \<in> set rs. \<not> title_match title (rtext r)))"
proof -
  have a: "(\<forall>i \<le> title_len title. char_at stored i = char_at title i) \<longleftrightarrow>
      (\<forall>i < title_len title. char_at stored i = char_at title i) \<and>
      char_at stored (title_len title) = char_at title (title_len title)"
    by (auto simp: le_less)
  have b: "char_at p (title_len p) = 0 \<or> char_at p (title_len p) = PilotEOL" for p
    by (induction p) (auto simp: title_len_Nil title_len_Cons char_at_0 char_at_Suc)
  show ?thesis
    using a b [of title] by (simp add: title_match_iff FindRecord_Some_iff FindRecord_None_iff)
qed

theorem C4_title_lookup_witness:
  "title_match (bytes ''Foo'' @ [0x0A] @ bytes ''x'') (bytes ''Foo'' @ [0x0A] @ bytes ''y'') \<and>
   \<not> title_match (bytes ''Foo'') (bytes ''Foobar'') \<and>
   \<not> title_match (bytes ''Foo'') (bytes ''Foo'' @ [0x0A] @ bytes ''bar'') \<and>
   FindRecord (bytes ''Foo'')
     [\<lparr>catnum = 0, places = 14, secret = 0, stripzeros = 1, rtext = bytes ''Foobar''\<rparr>,
      \<lparr>catnum = 1, places = 2, secret = 0, stripzeros = 0, rtext = bytes ''Foo''\<rparr>] = Some 1"
  using
    C4_title_lookup [where title = "bytes ''Foo'' @ [0x0A] @ bytes ''x''"
      and stored = "bytes ''Foo'' @ [0x0A] @ bytes ''y''" and rs = "[]" and k = 0]
    C4_title_lookup [where title = "bytes ''Foo''" and stored = "bytes ''Foobar''"
      and rs = "[\<lparr>catnum = 0, places = 14, secret = 0, stripzeros = 1, rtext = bytes ''Foobar''\<rparr>,
        \<lparr>catnum = 1, places = 2, secret = 0, stripzeros = 0, rtext = bytes ''Foo''\<rparr>]" and k = 1]
  by (simp add: bytes_def PilotEOL_def)




text \<open>
  C5. Category allocation: when the name is in no slot and a slot is unused,
  \<open>LoadImport\<close> takes the first unused slot \<open>k\<close>, copies the name into it and stores
  there the new \<open>lastUniqID\<close>. That id is reached from the old \<open>lastUniqID\<close> by counting
  upwards (wrapping at 256) past ids that are in the table, and it is the id of none
  of the 16 slots before the allocation. So afterwards the id of slot \<open>k\<close> differs from
  the id of every other slot, and the invariant \<open>uniq_ids\<close> is kept.
\<close>

theorem C5_fresh_unique_id:
  assumes absent: "\<forall>i < dmRecNumCategories. strcmp (categoryLabels (appinfo info) ! i) catname \<noteq> 0"
    and free: "\<exists>i < dmRecNumCategories. deref (categoryLabels (appinfo info) ! i) = 0"
    and len: "length (categoryUniqIDs (appinfo info)) = dmRecNumCategories"
  shows "let a = appinfo info;
             a' = appinfo (snd (LoadImport_catnum catname info));
             k = unat (fst (LoadImport_catnum catname info))
         in k < dmRecNumCategories \<and>
            deref (categoryLabels a ! k) = 0 \<and> (\<forall>j < k. deref (categoryLabels a ! j) \<noteq> 0) \<and>
            categoryLabels a' = (categoryLabels a)[k := strcpy (categoryLabels a ! k) catname] \<and>
            categoryUniqIDs a' = (categoryUniqIDs a)[k := lastUniqID a'] \<and>
            categoryUniqIDs a' ! k = lastUniqID a' \<and>
            (\<exists>n. lastUniqID a' = lastUniqID a + 1 + of_nat n \<and>
                 (\<forall>m < n. lastUniqID a + 1 + of_nat m \<in> ids_used (categoryUniqIDs a))) \<and>
            lastUniqID a' \<notin> ids_used (categoryUniqIDs a) \<and>
            (\<forall>j < dmRecNumCategories. j \<noteq> k \<longrightarrow> categoryUniqIDs a' ! j \<noteq> categoryUniqIDs a' ! k) \<and>
            (uniq_ids a \<longrightarrow> uniq_ids a')"
proof -
  define k where "k = for_break (\<lambda>i. deref (categoryLabels (appinfo info) ! i) = 0) dmRecNumCategories 0"
  define u where "u = NextUniqID (categoryUniqIDs (appinfo info)) (lastUniqID (appinfo info))"
  define ids where "ids = categoryUniqIDs (appinfo info)"
  note alloc = LoadImport_catnum_alloc [OF absent free, folded k_def u_def]
  have k: "k < dmRecNumCategories" by (rule alloc(1))
  have k16: "k < 16" using k by (simp add: dmRecNumCategories_def)
  have unat: "unat (of_nat k :: Byte) = k"
    using k16 by (simp add: unat_of_nat)
  have u: "u \<notin> ids_used ids" unfolding u_def ids_def by (rule NextUniqID_free)
  have other: "ids ! j \<noteq> u" if "j < dmRecNumCategories" for j
    using u that by (auto simp: ids_used_def)
  have klen: "k < length ids" using k len by (simp add: ids_def)
  have skips: "\<exists>n. u = lastUniqID (appinfo info) + 1 + of_nat n \<and>
                 (\<forall>m < n. lastUniqID (appinfo info) + 1 + of_nat m \<in> ids_used ids)"
    unfolding u_def ids_def by (rule NextUniqID_skips)
  have inv: "uniq_ids (appinfo (snd (LoadImport_catnum catname info)))" if "uniq_ids (appinfo info)"
    unfolding uniq_ids_def
  proof (intro allI impI)
    fix i j
    assume i: "i < dmRecNumCategories" and j: "j < dmRecNumCategories"
    assume ne: "i \<noteq> j \<and> deref (categoryLabels (appinfo (snd (LoadImport_catnum catname info))) ! i) \<noteq> 0"
    show "categoryUniqIDs (appinfo (snd (LoadImport_catnum catname info))) ! i \<noteq>
          categoryUniqIDs (appinfo (snd (LoadImport_catnum catname info))) ! j"
    proof (cases "i = k")
      case True
      with ne j klen other [of j] show ?thesis
        by (auto simp: alloc(4) ids_def [symmetric])
    next
      case False
      show ?thesis
      proof (cases "j = k")
        case True
        with False i klen other [of i] show ?thesis
          by (auto simp: alloc(4) ids_def [symmetric])
      next
        case F2: False
        from ne False have "deref (categoryLabels (appinfo info) ! i) \<noteq> 0"
          by (simp add: alloc(4))
        with that i j ne have "ids ! i \<noteq> ids ! j"
          by (auto simp: uniq_ids_def ids_def)
        with False F2 show ?thesis
          by (simp add: alloc(4) ids_def [symmetric])
      qed
    qed
  qed
  show ?thesis
    using k alloc(2) alloc(3) unat klen u skips other inv
    by (auto simp: Let_def alloc(4) ids_def [symmetric])
qed

theorem C5_fresh_unique_id_witness:
  "LoadImport_catnum (bytes ''Travel'') table_info =
     (3, table_info\<lparr>appinfo := (appinfo table_info)\<lparr>
        categoryLabels := (categoryLabels (appinfo table_info))[3 := bytes ''Travel'' @ replicate 10 0],
        lastUniqID := 3,
        categoryUniqIDs := [0, 1, 2, 3] @ replicate 12 0\<rparr>\<rparr>) \<and>
   3 \<notin> ids_used (categoryUniqIDs (appinfo table_info))"
proof -
  have absent: "\<forall>i < dmRecNumCategories. strcmp (categoryLabels (appinfo table_info) ! i) (bytes ''Travel'') \<noteq> 0"
    unfolding all_less_list_all by code_simp
  have free: "\<exists>i < dmRecNumCategories. deref (categoryLabels (appinfo table_info) ! i) = 0"
    unfolding ex_less_list_ex by code_simp
  have len: "length (categoryUniqIDs (appinfo table_info)) = dmRecNumCategories"
    by code_simp
  have ev: "LoadImport_catnum (bytes ''Travel'') table_info =
     (3, table_info\<lparr>appinfo := (appinfo table_info)\<lparr>
        categoryLabels := (categoryLabels (appinfo table_info))[3 := bytes ''Travel'' @ replicate 10 0],
        lastUniqID := 3,
        categoryUniqIDs := [0, 1, 2, 3] @ replicate 12 0\<rparr>\<rparr>)"
    by code_simp
  from C5_fresh_unique_id [OF absent free len] ev show ?thesis
    by (simp add: Let_def)
qed

text \<open>
  C6. A full table: when the name is in no slot and every slot is in use, the category
  of the import is \<open>dmUnfiledCategory\<close>, which is 0, and the table is returned as it
  was. No error comes of it: \<open>LoadImport_catnum\<close> has no error result, and whenever
  \<open>LoadImport\<close> returns for a text that begins with such a category line, the table it
  returns is unchanged and the record, if there is one, has category 0.
\<close>

theorem C6_full_table_falls_back:
  assumes absent: "\<forall>i < dmRecNumCategories. strcmp (categoryLabels (appinfo info) ! i) catname \<noteq> 0"
    and full: "\<forall>i < dmRecNumCategories. deref (categoryLabels (appinfo info) ! i) \<noteq> 0"
  shows "LoadImport_catnum catname info = (dmUnfiledCategory, info) \<and> dmUnfiledCategory = 0 \<and>
         (\<forall>buff endq. LoadImport_catname buff = Inr (catname, endq) \<longrightarrow>
            LoadImport_category buff info = Inr (0, endq, info)) \<and>
         (\<forall>fp n buff fp1 endq res fp' info'.
            ReadLine_nonblank [] fp = Inr (n, buff, fp1) \<and>
            strncmp buff CategoryLine CatTestLength = 0 \<and>
            LoadImport_catname buff = Inr (catname, endq) \<and>
            LoadImport fp info = Inr (res, fp', info') \<longrightarrow>
            info' = info \<and> (\<forall>newrec. res = Some newrec \<longrightarrow> catnum newrec = 0))"
proof -
  have 1: "LoadImport_catnum catname info = (dmUnfiledCategory, info)"
    using absent full by (rule LoadImport_catnum_full)
  have 2: "LoadImport_category buff info = Inr (0, endq, info)"
    if "LoadImport_catname buff = Inr (catname, endq)" for buff endq
    using that by (simp add: LoadImport_category_def 1 dmUnfiledCategory_def)
  have 3: "info' = info \<and> (\<forall>newrec. res = Some newrec \<longrightarrow> catnum newrec = 0)"
    if "ReadLine_nonblank [] fp = Inr (n, buff, fp1)"
      "strncmp buff CategoryLine CatTestLength = 0"
      "LoadImport_catname buff = Inr (catname, endq)"
      "LoadImport fp info = Inr (res, fp', info')" for fp n buff fp1 endq res fp' info'
    using LoadImport_category_line [OF that] by (cases "n < 1") (auto simp: 1 dmUnfiledCategory_def)
  show ?thesis using 1 2 3 by (simp add: dmUnfiledCategory_def) blast
qed

theorem C6_full_table_falls_back_witness:
  "LoadImport_catnum (bytes ''New'') full_info = (0, full_info) \<and>
   LoadImport (bytes ''Category = '' @ [0x22] @ bytes ''New'' @ [0x22] @ bytes ''; Secret = 0'' @ [0x0A] @
               bytes ''1+1'' @ [0x0A]) full_info =
     Inr (Some \<lparr>catnum = 0, places = 14, secret = 0, stripzeros = 1, rtext = bytes ''1+1''\<rparr>, [], full_info)"
proof -
  have absent: "\<forall>i < dmRecNumCategories. strcmp (categoryLabels (appinfo full_info) ! i) (bytes ''New'') \<noteq> 0"
    unfolding all_less_list_all by code_simp
  have full: "\<forall>i < dmRecNumCategories. deref (categoryLabels (appinfo full_info) ! i) \<noteq> 0"
    unfolding all_less_list_all by code_simp
  have ev: "LoadImport (bytes ''Category = '' @ [0x22] @ bytes ''New'' @ [0x22] @ bytes ''; Secret = 0'' @ [0x0A] @
               bytes ''1+1'' @ [0x0A]) full_info =
     Inr (Some \<lparr>catnum = 0, places = 14, secret = 0, stripzeros = 1, rtext = bytes ''1+1''\<rparr>, [], full_info)"
    by code_simp
  from C6_full_table_falls_back [OF absent full] ev show ?thesis
    by (simp add: dmUnfiledCategory_def)
qed




text \<open>
  C2. The header check. For a header of 72 bytes: when its type tag is \<open>Data\<close>, its
  creator tag \<open>MthP\<close> and its version word 1, the check of \<open>LoadDB\<close> and of MpExport's
  \<open>main\<close> passes and neither ends with a format error; for every other header both
  end with the format error, whatever follows the header in the file: nothing after
  the header has been read then.
\<close>

theorem C2_header_check:
  assumes "length mem = offsetof_recordList"
  shows "(good_header mem \<longrightarrow>
            check_Hdr (load_DatabaseHdrType mem) = Inr (load_DatabaseHdrType mem) \<and>
            MpExport_check_Hdr (load_DatabaseHdrType mem) =
              Inr ((load_DatabaseHdrType mem)\<lparr>version := MathPadVersion\<rparr>) \<and>
            LoadDB \<lparr>content = mem @ rest, fpos = 0\<rparr> g \<noteq> Some (Inl FormatError) \<and>
            MpExport_main \<lparr>content = mem @ rest, fpos = 0\<rparr> \<noteq> Some (Inl FormatError)) \<and>
         (\<not> good_header mem \<longrightarrow>
            check_Hdr (load_DatabaseHdrType mem) = Inl FormatError \<and>
            MpExport_check_Hdr (load_DatabaseHdrType mem) = Inl FormatError \<and>
            LoadDB \<lparr>content = mem @ rest, fpos = 0\<rparr> g = Some (Inl FormatError) \<and>
            MpExport_main \<lparr>content = mem @ rest, fpos = 0\<rparr> = Some (Inl FormatError))"
proof -
  note fr = fread_header [OF assms, of rest]
  have bad: "LoadDB \<lparr>content = mem @ rest, fpos = 0\<rparr> g = Some (Inl FormatError)"
    "MpExport_main \<lparr>content = mem @ rest, fpos = 0\<rparr> = Some (Inl FormatError)" if "\<not> good_header mem"
    using that assms
    by (simp_all add: LoadDB_def MpExport_main_def fr check_Hdr_iff MpExport_check_Hdr_iff)
  have good: "LoadDB \<lparr>content = mem @ rest, fpos = 0\<rparr> g \<noteq> Some (Inl FormatError)" if "good_header mem"
    using that assms
    by (auto simp: LoadDB_def fr check_Hdr_iff Let_def split: prod.splits if_splits
        dest: LoadDB_lists_not_FormatError)
  have good': "MpExport_main \<lparr>content = mem @ rest, fpos = 0\<rparr> \<noteq> Some (Inl FormatError)" if "good_header mem"
    using that assms
    by (auto simp: MpExport_main_def fr MpExport_check_Hdr_iff Let_def split: prod.splits if_splits
        dest: MpExport_lists_not_FormatError)
  show ?thesis using assms bad good good' by (simp add: check_Hdr_iff MpExport_check_Hdr_iff)
qed

theorem C2_header_check_witness:
  "good_header example_hdr \<and>
   LoadDB \<lparr>content = example_hdr @ example_body, fpos = 0\<rparr> globals0 = Some (Inr example_globals) \<and>
   \<not> good_header (example_hdr[35 := 2]) \<and>
   LoadDB \<lparr>content = example_hdr[35 := 2] @ example_body, fpos = 0\<rparr> globals0 = Some (Inl FormatError) \<and>
   MpExport_main \<lparr>content = example_hdr[35 := 2] @ example_body, fpos = 0\<rparr> = Some (Inl FormatError)"
proof -
  have len: "length example_hdr = offsetof_recordList" "length (example_hdr[35 := 2]) = offsetof_recordList"
    by (simp_all add: example_hdr_def offsetof_recordList_def bytes_def)
  have g: "good_header example_hdr" by code_simp
  have b: "\<not> good_header (example_hdr[35 := 2])" by code_simp
  from C2_header_check [OF len(1), of example_body globals0]
    C2_header_check [OF len(2), of example_body globals0] g b LoadDB_example
  show ?thesis by (simp add: example_db_def)
qed

text \<open>
  C1, as the claim states it, fails: the reader does not stop at a byte of value 0x0A.
  The first record of the example file has the text \<open>Foo\<close>, 0x0A, \<open>bar\<close>: the
  bytes at the entry's offset 404, after the record header of two bytes, up to the NUL.
  Read up to a terminator 0x0A, the text would be \<open>Foo\<close>.
\<close>

theorem C1_counterexample:
  "LoadDB \<lparr>content = example_db, fpos = 0\<rparr> globals0 = Some (Inr example_globals) \<and>
   be32 (take 4 (field 78 8 example_db)) = 404 \<and>
   drop (404 + offsetof_text) example_db =
     bytes ''Foo'' @ [0x0A] @ bytes ''bar'' @ [0, 2, 0] @ bytes ''Baz'' @ [0] \<and>
   rtext (RecordList example_globals ! 0) = bytes ''Foo'' @ [0x0A] @ bytes ''bar'' \<and>
   takeWhile (\<lambda>c. c \<noteq> 0x0A) (drop (404 + offsetof_text) example_db) = bytes ''Foo'' \<and>
   rtext (RecordList example_globals ! 0) \<noteq>
     takeWhile (\<lambda>c. c \<noteq> 0x0A) (drop (404 + offsetof_text) example_db)"
proof -
  have 3: "rtext (RecordList example_globals ! 0) = bytes ''Foo'' @ [0x0A] @ bytes ''bar''"
    by (simp add: example_globals_def)
  show ?thesis
    using LoadDB_example example_offset0
    by (simp add: offsetof_text_def example_payload0 3) (simp add: bytes_def)
qed

text \<open>
  C1, amended. For an entry of a record list whose offset (its first four bytes, most
  significant first) is below \<open>2^31\<close>, whose record header of two bytes lies in the
  file and whose payload (the bytes after the header) holds a NUL byte: the record is
  read at that offset; \<open>places\<close> and \<open>stripzeros\<close> are the two bytes of the header; the
  text is made of the payload's bytes up to the first NUL byte (value 0), which is not
  part of it, and the stream is left after that NUL. \<open>LoadDB\<close> returns this text in
  the record; MpExport's \<open>main\<close> writes it to the text file, after the two lines of
  the record's settings, when the label of the record's category ends with a NUL in
  the category table \<open>info\<close> it has read.
\<close>

theorem C1_record_text:
  assumes mem: "length mem = sizeof_RecordEntryType"
    and off: "be32 (take 4 mem) < 2 ^ 31"
    and inside: "be32 (take 4 mem) + offsetof_text \<le> length (content db)"
    and nul: "0 \<in> set (drop (be32 (take 4 mem) + offsetof_text) (content db))"
  shows "let pos = be32 (take 4 mem);
             payload = drop (pos + offsetof_text) (content db);
             rt = takeWhile (\<lambda>c. c \<noteq> 0) payload;
             catnum' = mem ! 4 AND dmRecAttrCategoryMask;
             secret' = (if mem ! 4 AND dmRecAttrSecret \<noteq> 0 then 1 else 0);
             label = drop (offsetof_categoryLabels + dmCategoryLength * unat catnum') info
         in payload = rt @ 0 # drop (Suc (length rt)) payload \<and>
            LoadDB_record db (load_RecordEntryType mem) =
              Inr (\<lparr>catnum = catnum', places = content db ! pos, secret = secret',
                    stripzeros = content db ! (pos + 1), rtext = rt\<rparr>,
                   db\<lparr>fpos := pos + offsetof_text + length rt + 1\<rparr>) \<and>
            (0 \<in> set label \<longrightarrow>
               MpExport_record info db (load_RecordEntryType mem) out =
                 Inr (db\<lparr>fpos := pos + offsetof_text + length rt + 1\<rparr>,
                      out @
                      fprintf CategoryLine [Str label, Num (if secret' \<noteq> 0 then 1 else 0)] @
                      fprintf PlacesLine
                        [Num (uint (content db ! pos)), Num (uint (content db ! (pos + 1)))] @
                      rt @ [PilotEOL] @ cstr SeparatorLine))"
proof -
  note sp = seek_pos_entry [OF mem off, of db]
  have at: "attributes (load_RecordEntryType mem) = mem ! 4"
    by (simp add: load_RecordEntryType_def)
  have sz: "0 \<in> set p \<Longrightarrow> p = takeWhile (\<lambda>c. c \<noteq> 0) p @ 0 # drop (Suc (length (takeWhile (\<lambda>c. c \<noteq> 0) p))) p" for p :: "Byte list"
    using split_at_zero [of p] by (simp add: cstr_def)
  show ?thesis
    using inside nul sz [of "drop (be32 (take 4 mem) + offsetof_text) (content db)"]
    by (simp add: Let_def LoadDB_record_eq MpExport_record_eq sp at cstr_def [symmetric] PilotEOL_def
        del: takeWhile_eq_take)
qed

theorem C1_record_text_witness:
  "LoadDB_record \<lparr>content = example_db, fpos = 94\<rparr> (load_RecordEntryType (field 78 8 example_db)) =
     Inr (\<lparr>catnum = 1, places = 14, secret = 1, stripzeros = 1,
           rtext = bytes ''Foo'' @ [0x0A] @ bytes ''bar''\<rparr>,
          \<lparr>content = example_db, fpos = 414\<rparr>) \<and>
   MpExport_record (take sizeof_AppInfoType example_appinfo) \<lparr>content = example_db, fpos = 94\<rparr>
       (load_RecordEntryType (field 78 8 example_db)) [] =
     Inr (\<lparr>content = example_db, fpos = 414\<rparr>,
          bytes ''Category = '' @ [0x22] @ bytes ''Business'' @ [0x22] @ bytes ''; Secret = 1'' @ [0x0A] @
          bytes ''Places = 14; StripZeros = 1'' @ [0x0A] @
          bytes ''Foo'' @ [0x0A] @ bytes ''bar'' @ [0x0A] @
          bytes ''~~~~~~~~~~~~~~~~~~~~~~~~~~~'' @ [0x0A])"
proof -
  have mem: "length (field 78 8 example_db) = sizeof_RecordEntryType"
    unfolding example_entry0 by (simp add: sizeof_RecordEntryType_def)
  note 1 = example_offset0
  have off: "be32 (take 4 (field 78 8 example_db)) < 2 ^ 31" unfolding 1 by simp
  note len = length_example_db
  have inside: "be32 (take 4 (field 78 8 example_db)) + offsetof_text
      \<le> length (content \<lparr>content = example_db, fpos = 94\<rparr>)"
    unfolding 1 by (simp add: len offsetof_text_def)
  note 2 = example_payload0
  have nul: "0 \<in> set (drop (be32 (take 4 (field 78 8 example_db)) + offsetof_text)
      (content \<lparr>content = example_db, fpos = 94\<rparr>))"
    unfolding 1 by (simp add: offsetof_text_def 2)
  have 3: "field 78 8 example_db ! 4 = 0x11" unfolding example_entry0 by simp
  note 4 = example_item0
  have label: "0 \<in> set (drop 18 (take sizeof_AppInfoType example_appinfo))"
    by code_simp
  have lines: "fprintf CategoryLine [Str (drop 18 (take sizeof_AppInfoType example_appinfo)), Num 1] @
      fprintf PlacesLine [Num 14, Num 1] =
      bytes ''Category = '' @ [0x22] @ bytes ''Business'' @ [0x22] @ bytes ''; Secret = 1'' @ [0x0A] @
      bytes ''Places = 14; StripZeros = 1'' @ [0x0A]"
    by code_simp
  have sep: "cstr SeparatorLine = bytes ''~~~~~~~~~~~~~~~~~~~~~~~~~~~'' @ [0x0A]"
    by code_simp
  from C1_record_text [OF mem off inside nul, of "take sizeof_AppInfoType example_appinfo" "[]"]
  have "LoadDB_record \<lparr>content = example_db, fpos = 94\<rparr> (load_RecordEntryType (field 78 8 example_db)) =
     Inr (\<lparr>catnum = 1, places = 14, secret = 1, stripzeros = 1,
           rtext = bytes ''Foo'' @ [0x0A] @ bytes ''bar''\<rparr>,
          \<lparr>content = example_db, fpos = 414\<rparr>)"
    and "MpExport_record (take sizeof_AppInfoType example_appinfo) \<lparr>content = example_db, fpos = 94\<rparr>
       (load_RecordEntryType (field 78 8 example_db)) [] =
     Inr (\<lparr>content = example_db, fpos = 414\<rparr>,
          (fprintf CategoryLine [Str (drop 18 (take sizeof_AppInfoType example_appinfo)), Num 1] @
           fprintf PlacesLine [Num 14, Num 1]) @
          bytes ''Foo'' @ [0x0A] @ bytes ''bar'' @ [0x0A] @ cstr SeparatorLine)"
    unfolding 1
    by (simp_all add: Let_def 2 3 4 label bytes_def dmRecAttrCategoryMask_def dmRecAttrSecret_def
        offsetof_text_def offsetof_categoryLabels_def dmCategoryLength_def PilotEOL_def)
  then show ?thesis
    unfolding lines sep by simp
qed

text \<open>
  C7. The writer does not do what the claim says for a store of 65536 records.
  \<open>NumRecords\<close> is a \<open>Word\<close>, and \<open>AddRecord\<close> counts in it without a bound: after
  65536 calls from the empty store the list has 65536 records and \<open>NumRecords\<close> is 0,
  which is the length of the list counted in a \<open>Word\<close>, as the program keeps it.
  \<open>SaveDB\<close> then writes the entry count 0, asks \<open>malloc\<close> for no bytes, where its
  comment says "the correct size array of record entries", and its loop over the list
  stores the first record's entry outside that array. For a store whose count has not
  wrapped the writer does what the claim says (\<open>SaveDB_layout\<close>).
\<close>

theorem C7_record_count_wraps:
  "length (RecordList ((AddRecord \<lparr>catnum = 0, places = 14, secret = 0, stripzeros = 1, rtext = []\<rparr> ^^ 65536) globals0)) = 65536 \<and>
   NumRecords ((AddRecord \<lparr>catnum = 0, places = 14, secret = 0, stripzeros = 1, rtext = []\<rparr> ^^ 65536) globals0) = 0 \<and>
   NumRecords ((AddRecord \<lparr>catnum = 0, places = 14, secret = 0, stripzeros = 1, rtext = []\<rparr> ^^ 65536) globals0) =
     of_nat (length (RecordList ((AddRecord \<lparr>catnum = 0, places = 14, secret = 0, stripzeros = 1, rtext = []\<rparr> ^^ 65536) globals0))) \<and>
   SaveDB 0 (\<lambda>i. 0) \<lparr>content = [], fpos = 0\<rparr>
     ((AddRecord \<lparr>catnum = 0, places = 14, secret = 0, stripzeros = 1, rtext = []\<rparr> ^^ 65536) globals0) =
     Inl Undefined"
proof -
  let ?r = "\<lparr>catnum = 0, places = 14, secret = 0, stripzeros = 1, rtext = []\<rparr>"
  let ?g = "(AddRecord ?r ^^ 65536) globals0"
  have rl: "RecordList ?g = replicate 65536 ?r"
    using AddRecord_funpow [where r = ?r and n = 65536 and g = globals0] by (simp add: globals0_def)
  have nr: "NumRecords ?g = 0"
    using AddRecord_funpow [where r = ?r and n = 65536 and g = globals0] by (simp add: globals0_def)
  have "SaveDB_records (replicate 65536 ?r) 0 [] db = Inl Undefined" for db
    by (rule SaveDB_records_overrun) simp_all
  then have "SaveDB 0 (\<lambda>i. 0) \<lparr>content = [], fpos = 0\<rparr> ?g = Inl Undefined"
    by (simp add: SaveDB_def Let_def rl nr)
  moreover have "NumRecords ?g = of_nat (length (RecordList ?g))"
    unfolding rl nr by simp
  ultimately show ?thesis using rl nr by simp
qed

text \<open>
  C8, as the claim states it for every database, fails. The file \<open>twins_db\<close> holds two
  records of the title \<open>Foo\<close> with different second lines. \<open>LoadDB\<close> reads it and
  MpExport writes \<open>twins_text\<close> for it; when that text is imported into the globals
  \<open>LoadDB\<close> made, \<open>FindRecord\<close> returns the first record for the second import, the
  two differ, and the user is asked. With the answer no the import is added as a third
  record, with the answer yes it replaces the first record: the list of records
  changes either way. (A file with such records is what the import itself leaves
  behind after the answer no.)
\<close>

theorem C8_counterexample:
  "LoadDB \<lparr>content = twins_db, fpos = 0\<rparr> globals0 = Some (Inr twins_globals) \<and>
   MpExport_main \<lparr>content = twins_db, fpos = 0\<rparr> = Some (Inr twins_text) \<and>
   ProcessImports answer_NO twins_text twins_globals =
     Inr \<lparr>allok = False, asked = [bytes ''Foo'' @ [0x0A] @ bytes ''bar''],
          globs = AddRecord \<lparr>catnum = 0, places = 2, secret = 0, stripzeros = 0,
                             rtext = bytes ''Foo'' @ [0x0A] @ bytes ''baz''\<rparr> twins_globals\<rparr> \<and>
   ProcessImports answer_YES twins_text twins_globals =
     Inr \<lparr>allok = False, asked = [bytes ''Foo'' @ [0x0A] @ bytes ''bar''],
          globs = ReplaceRecord 0 \<lparr>catnum = 0, places = 2, secret = 0, stripzeros = 0,
                             rtext = bytes ''Foo'' @ [0x0A] @ bytes ''baz''\<rparr> twins_globals\<rparr> \<and>
   RecordList (AddRecord \<lparr>catnum = 0, places = 2, secret = 0, stripzeros = 0,
                 rtext = bytes ''Foo'' @ [0x0A] @ bytes ''baz''\<rparr> twins_globals) \<noteq> RecordList twins_globals \<and>
   RecordList (ReplaceRecord 0 \<lparr>catnum = 0, places = 2, secret = 0, stripzeros = 0,
                 rtext = bytes ''Foo'' @ [0x0A] @ bytes ''baz''\<rparr> twins_globals) \<noteq> RecordList twins_globals"
proof -
  have no: "ProcessImports answer_NO twins_text twins_globals =
     Inr \<lparr>allok = False, asked = [bytes ''Foo'' @ [0x0A] @ bytes ''bar''],
          globs = AddRecord \<lparr>catnum = 0, places = 2, secret = 0, stripzeros = 0,
                             rtext = bytes ''Foo'' @ [0x0A] @ bytes ''baz''\<rparr> twins_globals\<rparr>"
    by code_simp
  have yes: "ProcessImports answer_YES twins_text twins_globals =
     Inr \<lparr>allok = False, asked = [bytes ''Foo'' @ [0x0A] @ bytes ''bar''],
          globs = ReplaceRecord 0 \<lparr>catnum = 0, places = 2, secret = 0, stripzeros = 0,
                             rtext = bytes ''Foo'' @ [0x0A] @ bytes ''baz''\<rparr> twins_globals\<rparr>"
    by code_simp
  have ch: "RecordList (AddRecord \<lparr>catnum = 0, places = 2, secret = 0, stripzeros = 0,
                 rtext = bytes ''Foo'' @ [0x0A] @ bytes ''baz''\<rparr> twins_globals) \<noteq> RecordList twins_globals"
    "RecordList (ReplaceRecord 0 \<lparr>catnum = 0, places = 2, secret = 0, stripzeros = 0,
                 rtext = bytes ''Foo'' @ [0x0A] @ bytes ''baz''\<rparr> twins_globals) \<noteq> RecordList twins_globals"
    by (simp_all add: AddRecord_def ReplaceRecord_def twins_globals_def)
  from LoadDB_twins MpExport_twins no yes ch show ?thesis by simp
qed

text \<open>
  C8, amended. Let \<open>LoadDB\<close> read the file, and let every record it made be
  \<open>reimportable\<close>: the label of its category ends inside its slot of the category
  table, has no double quote, line feed or carriage return in it and is the label of
  no earlier slot; its \<open>stripzeros\<close> byte is 0 or 1; every line of its text has at
  most 254 chars, no carriage return and does not begin with the 27 tildes of the
  separator line; and the first record of its title in the list is the same as the
  record in category, flags, places and text. Then MpExport writes a text for the
  file, and \<open>ProcessImports\<close> on that text, started with the globals \<open>LoadDB\<close>
  made, returns with the globals as they were (the record list, the record count and
  the category table) and has asked the user nothing.
\<close>

theorem C8_reimport_unchanged:
  assumes "LoadDB \<lparr>content = file, fpos = 0\<rparr> globals0 = Some (Inr g)"
    and "reimportable g"
  shows "\<exists>text. MpExport_main \<lparr>content = file, fpos = 0\<rparr> = Some (Inr text) \<and>
           ProcessImports Confirm text g = Inr \<lparr>allok = False, asked = [], globs = g\<rparr>"
proof -
  have e: "RecordList globals0 = []" by (simp add: globals0_def)
  note ex = LoadDB_export [OF assms(1) e]
  have lab: "\<forall>r \<in> set (RecordList g). label_ok (MpInfo g) r"
    using assms(2) by (simp add: reimportable_def reimportable_record_def label_ok_def Let_def)
  with ex have main: "MpExport_main \<lparr>content = file, fpos = 0\<rparr> =
      Some (Inr (concat (map (export_block (MpInfo g)) (RecordList g))))" by simp
  define st where "st = \<lparr>allok = False, asked = [], globs = g\<rparr>"
  have "ProcessImports_loop Confirm (concat (map (export_block (MpInfo (globs st))) (RecordList g))) st = Inr st"
  proof (rule ProcessImports_loop_export)
    show " \<forall>r\<in>set (RecordList g).
       reimportable_record (MpInfo (globs st)) r \<and>
       unat (catnum r) < dmRecNumCategories \<and>
       secret r \<le> 1 \<and> 0 \<notin> set (rtext r) \<and> same_as_stored (RecordList (globs st)) r"
      using ex assms(2) by (simp add: st_def reimportable_def loaded_def)
  qed
  then have "ProcessImports Confirm (concat (map (export_block (MpInfo g)) (RecordList g))) g =
             Inr \<lparr>allok = False, asked = [], globs = g\<rparr>"
    by (simp add: ProcessImports_def st_def)
  with main show ?thesis by blast
qed

theorem C8_reimport_unchanged_witness:
  "LoadDB \<lparr>content = example_db, fpos = 0\<rparr> globals0 = Some (Inr example_globals) \<and>
   reimportable example_globals \<and>
   MpExport_main \<lparr>content = example_db, fpos = 0\<rparr> = Some (Inr example_text) \<and>
   ProcessImports answer_NO example_text example_globals =
     Inr \<lparr>allok = False, asked = [], globs = example_globals\<rparr>"
proof -
  from C8_reimport_unchanged [OF LoadDB_example reimportable_example, of answer_NO]
  have "ProcessImports answer_NO example_text example_globals =
     Inr \<lparr>allok = False, asked = [], globs = example_globals\<rparr>"
    by (simp add: MpExport_example)
  with LoadDB_example reimportable_example MpExport_example show ?thesis by simp
qed

end
